theory Spec2Isabelle
  imports Main
begin

section \<open>The datastore request layer (datastore/request)\<close>

text \<open>
  A shallow embedding of \<^verbatim>\<open>DatastoreRequest\<close>: \<^verbatim>\<open>get\<close>, \<^verbatim>\<open>save\<close>,
  \<^verbatim>\<open>delete\<close>, \<^verbatim>\<open>runQuery\<close>, \<^verbatim>\<open>allocateIds\<close> and the dispatcher
  \<^verbatim>\<open>makeReq_\<close>.

  Conventions of the embedding.
  \<^item> A JavaScript object is a record. A field that the code guards (\<^verbatim>\<open>x || []\<close>,
    \<^verbatim>\<open>if (x)\<close>) is an \<open>option\<close>; a field it reads unguarded is required. The
    \<^verbatim>\<open>mutation_result\<close> of a commit response is optional all the same: the code reads
    \<^verbatim>\<open>insert_auto_id_key\<close> through it unguarded, and through an absent one that read
    throws a TypeError.
  \<^item> An argument that is either one thing or an array of things
    (\<^verbatim>\<open>Array.isArray\<close>) is a value of \<open>one_or_many\<close>.
  \<^item> The codec module \<^verbatim>\<open>entity\<close> (entity.js) is a record of functions passed as the
    first argument of every operation; wire-side values have type \<open>'p\<close>, domain-side
    values type \<open>'d\<close>.
  \<^item> The authorized transport is the \<open>world\<close>: the answers still to come, one per
    dispatched request, and the log of what was dispatched. A dispatch with no answer
    left never completes.
  \<^item> The caller's callback is a function value \<open>'f fn\<close>; what an operation does with
    it is its \<open>completion\<close>: nothing yet, an invocation with arguments, or an
    exception.
\<close>

subsection \<open>JavaScript values\<close>

datatype js_error = Error string | TypeError

datatype 'a one_or_many = One 'a | Many "'a list"

definition isArray :: "'a one_or_many \<Rightarrow> bool" where
  "isArray x = (case x of One _ \<Rightarrow> False | Many _ \<Rightarrow> True)"

definition toArray :: "'a one_or_many \<Rightarrow> 'a list" where
  \<comment> \<open>\<^verbatim>\<open>isMultipleRequest ? keys : [keys]\<close>\<close>
  "toArray x = (case x of One a \<Rightarrow> [a] | Many as \<Rightarrow> as)"

text \<open>
  A function-valued argument: omitted (\<^verbatim>\<open>undefined\<close>), \<^verbatim>\<open>util.noop\<close>, a function of
  the caller, or a closure the module itself passes to a nested call.
\<close>

datatype 'f fn = Undefined | UtilNoop | UserFn 'f | Closure

definition orNoop :: "'f fn \<Rightarrow> 'f fn" where
  \<comment> \<open>\<^verbatim>\<open>callback || util.noop\<close>\<close>
  "orNoop f = (case f of Undefined \<Rightarrow> UtilNoop | _ \<Rightarrow> f)"

datatype ('f, 'a) completion = Pending | Invoked "'f fn" 'a | Threw js_error

definition invoke :: "'f fn \<Rightarrow> 'a \<Rightarrow> ('f, 'a) completion" where
  \<comment> \<open>calling \<^verbatim>\<open>undefined\<close> throws a TypeError\<close>
  "invoke f a = (case f of Undefined \<Rightarrow> Threw TypeError | _ \<Rightarrow> Invoked f a)"

subsection \<open>Keys, queries and the codec\<close>

text \<open>
  A key is a path of (kind, identifier) segments with an optional namespace; the
  identifier of a segment may be absent.
\<close>

datatype ident = Id int | Name string

type_synonym segment = "string \<times> ident option"

record key =
  namespace :: "string option"
  path :: "segment list"

text \<open>
  Modelled from the spec: the query object (query.js is not part of the sources). It
  carries an optional namespace, the client-side limit \<^verbatim>\<open>limitVal\<close>, a start cursor and
  an offset; \<^verbatim>\<open>start\<close> and \<^verbatim>\<open>offset\<close> return the query rebuilt with that one field
  replaced.
\<close>

record query =
  q_namespace :: "string option"
  limitVal :: int
  startVal :: "string option"
  offsetVal :: int

definition start :: "string \<Rightarrow> query \<Rightarrow> query" where
  \<comment> \<open>Modelled from the spec: \<^verbatim>\<open>q.start(cursor)\<close> of query.js, the query rebuilt with that cursor\<close>
  "start cursor q = q\<lparr>startVal := Some cursor\<rparr>"

definition offset :: "int \<Rightarrow> query \<Rightarrow> query" where
  \<comment> \<open>Modelled from the spec: \<^verbatim>\<open>q.offset(n)\<close> of query.js, the query rebuilt with that offset\<close>
  "offset n q = q\<lparr>offsetVal := n\<rparr>"

text \<open>
  A wire property is what \<^verbatim>\<open>entity.valueToProperty\<close> returns: an object on which
  \<^verbatim>\<open>save\<close> may set \<^verbatim>\<open>indexed\<close>. The \<^verbatim>\<open>value\<close> slot of a caller's data record (the
  field \<open>val\<close>) holds a domain value before \<^verbatim>\<open>save\<close> and a wire property after it.
  The field \<open>excludeFromIndexes\<close> is \<open>Some b\<close> when the record has a boolean there
  (\<^verbatim>\<open>util.is(data.excludeFromIndexes, 'boolean')\<close>) and \<open>None\<close> otherwise.
\<close>

record 'p property =
  payload :: 'p
  indexed :: "bool option"

datatype ('d, 'p) js_value = Domain 'd | Wire "'p property"

record ('d, 'p) data_record =
  name :: string
  val :: "('d, 'p) js_value"
  excludeFromIndexes :: "bool option"

text \<open>
  The module \<^verbatim>\<open>entity\<close>. Its functions are not part of the sources; every operation
  takes the module as a parameter and the theorems hold for any such module.
\<close>

record ('d, 'p) entity_module =
  keyToKeyProto :: "key \<Rightarrow> 'p"
  keyFromKeyProto :: "'p \<Rightarrow> key"
  isKeyComplete :: "key \<Rightarrow> bool"
  entityToEntityProto :: "'d \<Rightarrow> 'p"
  valueToProperty :: "('d, 'p) js_value \<Rightarrow> 'p property"
  formatArray :: "'p list \<Rightarrow> 'd list"
  queryToQueryProto :: "query \<Rightarrow> 'p"

subsection \<open>Caller-owned objects\<close>

text \<open>
  Key objects and data records are objects of the caller that \<^verbatim>\<open>save\<close> writes to, so
  they live in a heap and are named by address. An entity-descriptor
  \<^verbatim>\<open>{key: ..., data: ...}\<close> refers to its key object by address; its data is either an
  array of data records (by address) or a plain property bag.
\<close>

type_synonym addr = nat

record ('d, 'p) heap =
  keyObjects :: "addr \<Rightarrow> key"
  dataRecords :: "addr \<Rightarrow> ('d, 'p) data_record"

datatype 'd entity_data = PropertyList "addr list" | PropertyBag 'd

record 'd entityObject =
  key :: addr
  data :: "'d entity_data"

subsection \<open>Request bodies and responses\<close>

text \<open>
  \<^verbatim>\<open>ent\<close> of \<^verbatim>\<open>save\<close>: either \<^verbatim>\<open>{property: [...]}\<close>, whose elements are the
  caller's data records themselves, or the result of \<^verbatim>\<open>entity.entityToEntityProto\<close>;
  then \<^verbatim>\<open>ent.key\<close> is set.
\<close>

datatype 'p ent_body = Property "addr list" | EntityProto 'p

record 'p ent =
  ent_body :: "'p ent_body"
  ent_key :: 'p

record 'p mutation =
  upsert :: "'p ent list"
  insert_auto_id :: "'p ent list"
  delete_keys :: "'p list"

record read_options =
  ro_transaction :: "string option"

record partition_id =
  pid_namespace :: string

text \<open>
  The request body is one object whose fields are set by the operation and by
  \<^verbatim>\<open>makeReq_\<close>; \<open>body_key\<close> is its field \<^verbatim>\<open>key\<close>. An absent \<^verbatim>\<open>delete\<close>, \<^verbatim>\<open>upsert\<close> or
  \<^verbatim>\<open>insert_auto_id\<close> list of a mutation is the empty list (\<open>delete_keys\<close> is the
  field \<^verbatim>\<open>delete\<close>).
\<close>

record 'p body =
  body_key :: "'p list option"
  mutation :: "'p mutation option"
  mode :: "string option"
  transaction :: "string option"
  read_options :: "read_options option"
  query :: "'p option"
  partition_id :: "partition_id option"

definition empty_body :: "'p body" where
  "empty_body = \<lparr>body_key = None, mutation = None, mode = None, transaction = None,
     read_options = None, query = None, partition_id = None\<rparr>"

record 'p lookup_response =
  found :: "'p list"
  deferred :: "'p list option"

record 'p mutation_result =
  insert_auto_id_key :: "'p list option"

record 'p commit_response =
  mutation_result :: "'p mutation_result option"

text \<open>A cursor is a byte buffer, known here by its \<^verbatim>\<open>toBase64()\<close> rendering.\<close>

datatype byte_buffer = ByteBuffer (toBase64: string)

record 'p batch =
  entity_result :: "'p list"
  end_cursor :: "byte_buffer option"

record 'p run_query_response =
  batch :: "'p batch"

record 'p allocate_ids_response =
  resp_key :: "'p list option"

subsection \<open>The caller object and the transport\<close>

text \<open>
  \<^verbatim>\<open>this\<close>: \<open>tid\<close> is \<^verbatim>\<open>this.id\<close>, the transaction identifier, a buffer object when
  bound (hence truthy) and \<^verbatim>\<open>undefined\<close> otherwise. \<^verbatim>\<open>requests_\<close> and
  \<^verbatim>\<open>requestCallbacks_\<close> are the pending queues of a transaction; the continuation
  \<^verbatim>\<open>onCommit\<close> that \<^verbatim>\<open>save\<close> queues is the closure over \<^verbatim>\<open>callback\<close>, \<^verbatim>\<open>entities\<close>
  and \<^verbatim>\<open>insertIndexes\<close>.
\<close>

datatype ('f, 'd) onCommit_closure = OnCommit "'f fn" "'d entityObject list" "nat list"

record ('f, 'd, 'p) this =
  tid :: "string option"
  projectId :: string
  requests :: "'p body list"
  requestCallbacks :: "('f, 'd) onCommit_closure list"

record reqOpts =
  http_method :: string
  host :: string
  req_path :: string
  headers :: "(string \<times> string) list"

record 'p request =
  action :: string
  opts :: reqOpts
  body :: "'p body"

text \<open>
  The transport as seen from this module: each dispatched request is logged, and is
  answered by the next of the answers to come, an error or a decoded response of type
  \<open>'r\<close>. With no answer left the request is logged and its callback never runs.
\<close>

record ('p, 'r) world =
  answers :: "(js_error + 'r) list"
  dispatched :: "'p request list"

definition makeAuthorizedRequest ::
  "reqOpts \<Rightarrow> string \<Rightarrow> 'p body \<Rightarrow> ('p, 'r) world \<Rightarrow> (js_error + 'r) option \<times> ('p, 'r) world" where
  "makeAuthorizedRequest ro act b w =
     (let w' = w\<lparr>dispatched := dispatched w @ [\<lparr>action = act, opts = ro, body = b\<rparr>]\<rparr>
      in case answers w of
           [] \<Rightarrow> (None, w')
         | a # as \<Rightarrow> (Some a, w'\<lparr>answers := as\<rparr>))"

subsection \<open>The dispatcher\<close>

text \<open>
  \<open>makeReq\<close> is \<^verbatim>\<open>makeReq_\<close>, \<open>makeAuthorizedRequest\<close> is \<^verbatim>\<open>makeAuthorizedRequest_\<close>,
  and the fields \<open>requests\<close> and \<open>requestCallbacks\<close> are \<^verbatim>\<open>requests_\<close> and
  \<^verbatim>\<open>requestCallbacks_\<close>: a constant's name cannot end in an underscore. The operations
  always pass a body and a callback, so the two-argument form of \<^verbatim>\<open>makeReq_\<close> is not
  needed. What the callback of \<^verbatim>\<open>makeReq_\<close> is invoked with is the returned answer:
  \<open>Inl err\<close> for \<^verbatim>\<open>callback(err)\<close>, \<open>Inr resp\<close> for \<^verbatim>\<open>callback(null, resp)\<close>.
\<close>

definition GOOGLE_APIS_HOST :: string where
  "GOOGLE_APIS_HOST = ''www.googleapis.com''"

definition MODE_NON_TRANSACTIONAL :: string where
  "MODE_NON_TRANSACTIONAL = ''NON_TRANSACTIONAL''"

definition MODE_TRANSACTIONAL :: string where
  "MODE_TRANSACTIONAL = ''TRANSACTIONAL''"

definition frame_body :: "('f, 'd, 'p) this \<Rightarrow> string \<Rightarrow> 'p body \<Rightarrow> 'p body" where
  \<comment> \<open>the two \<^verbatim>\<open>if\<close> statements of \<^verbatim>\<open>makeReq_\<close> that write to \<^verbatim>\<open>body\<close>\<close>
  "frame_body this meth body0 =
     (let body1 =
            (if meth = ''commit'' then
               (case tid this of
                  Some t \<Rightarrow> body0\<lparr>mode := Some MODE_TRANSACTIONAL, transaction := Some t\<rparr>
                | None \<Rightarrow> body0\<lparr>mode := Some MODE_NON_TRANSACTIONAL\<rparr>)
             else body0)
      in if meth = ''lookup'' \<and> tid this \<noteq> None then
           body1\<lparr>read_options :=
             Some ((case read_options body1 of
                      Some ro \<Rightarrow> ro
                    | None \<Rightarrow> \<lparr>ro_transaction = None\<rparr>)\<lparr>ro_transaction := tid this\<rparr>)\<rparr>
         else body1)"

definition makeReq ::
  "('f, 'd, 'p) this \<Rightarrow> string \<Rightarrow> 'p body \<Rightarrow> ('p, 'r) world \<Rightarrow> (js_error + 'r) option \<times> ('p, 'r) world" where
  "makeReq this meth body0 w =
     (let reqOpts = \<lparr>http_method = ''POST'', host = GOOGLE_APIS_HOST,
            req_path = ''/datastore/v1beta2/datasets/'' @ projectId this @ ''/'' @ meth,
            headers = [(''Content-Type'', ''application/x-protobuf'')]\<rparr>
      in makeAuthorizedRequest reqOpts meth (frame_body this meth body0) w)"

subsection \<open>get\<close>

text \<open>
  What the callback of \<^verbatim>\<open>get\<close> receives as its second argument: nothing
  (\<^verbatim>\<open>undefined\<close>), one entity, or an array of entities.
\<close>

datatype 'd lookup_result = Nil | Entity 'd | Entities "'d list"

definition deferred_keys :: "'p lookup_response \<Rightarrow> 'p list" where
  \<comment> \<open>non-empty exactly when \<^verbatim>\<open>resp.deferred && resp.deferred.length\<close> is truthy\<close>
  "deferred_keys resp = (case deferred resp of Some ds \<Rightarrow> ds | None \<Rightarrow> [])"

definition first_of :: "'d list \<Rightarrow> 'd lookup_result" where
  \<comment> \<open>\<^verbatim>\<open>found[0]\<close>\<close>
  "first_of xs = (case xs of [] \<Rightarrow> Nil | x # _ \<Rightarrow> Entity x)"

definition concat_result :: "'d list \<Rightarrow> 'd lookup_result \<Rightarrow> 'd list" where
  \<comment> \<open>\<^verbatim>\<open>(found || []).concat(entities)\<close>; the nested call was given an array of keys\<close>
  "concat_result xs r = (case r of Entities ys \<Rightarrow> xs @ ys | Entity y \<Rightarrow> xs @ [y] | Nil \<Rightarrow> xs)"

text \<open>
  The nested \<^verbatim>\<open>that.get(...)\<close> is given a closure; what that closure does with its
  arguments is the case distinction on the completion of the nested call.
\<close>

function get ::
  "('d, 'p) entity_module \<Rightarrow> ('f, 'd, 'p) this \<Rightarrow> key one_or_many \<Rightarrow> 'f fn \<Rightarrow>
   ('p, 'p lookup_response) world \<Rightarrow>
   ('f, js_error option \<times> 'd lookup_result) completion \<times> ('p, 'p lookup_response) world" where
  "get entity this keys callback w =
     (let isMultipleRequest = isArray keys;
          keys1 = toArray keys;
          callback1 = orNoop callback;
          req = empty_body\<lparr>body_key := Some (map (keyToKeyProto entity) keys1)\<rparr>
      in case makeReq this ''lookup'' req w of
           (None, w1) \<Rightarrow> (Pending, w1)
         | (Some (Inl err), w1) \<Rightarrow> (invoke callback1 (Some err, Nil), w1)
         | (Some (Inr resp), w1) \<Rightarrow>
             (let found = formatArray entity (found resp) in
              if isMultipleRequest \<and> deferred_keys resp \<noteq> [] then
                (case get entity this (Many (map (keyFromKeyProto entity) (deferred_keys resp)))
                        Closure w1 of
                   (Invoked _ (Some err, _), w2) \<Rightarrow> (invoke callback1 (Some err, Nil), w2)
                 | (Invoked _ (None, entities), w2) \<Rightarrow>
                     (invoke callback1 (None, Entities (concat_result found entities)), w2)
                 | (Pending, w2) \<Rightarrow> (Pending, w2)
                 | (Threw e, w2) \<Rightarrow> (Threw e, w2))
              else (invoke callback1
                      (None, if isMultipleRequest then Entities found else first_of found), w1)))"
  by pat_completeness auto
termination
proof (relation "measure (\<lambda>(entity, this, keys, callback, w). length (answers w))")
  show "wf (measure (\<lambda>(entity :: ('d, 'p) entity_module, this :: ('f, 'd, 'p) this,
      keys :: key one_or_many, callback :: 'f fn, w :: ('p, 'p lookup_response) world).
      length (answers w)))"
    by simp
qed (auto simp: makeReq_def makeAuthorizedRequest_def Let_def split: list.splits)

declare get.simps [simp del]

subsection \<open>save\<close>

definition encode_record ::
  "('d, 'p) entity_module \<Rightarrow> ('d, 'p) data_record \<Rightarrow> ('d, 'p) data_record" where
  \<comment> \<open>the callback of \<^verbatim>\<open>entityObject.data.map\<close>: it writes to the record it is given\<close>
  "encode_record entity d =
     (let prop = valueToProperty entity (val d) in
      case excludeFromIndexes d of
        Some b \<Rightarrow> d\<lparr>val := Wire (prop\<lparr>indexed := Some (\<not> b)\<rparr>), excludeFromIndexes := None\<rparr>
      | None \<Rightarrow> d\<lparr>val := Wire prop\<rparr>)"

fun map_records ::
  "('d, 'p) entity_module \<Rightarrow> addr list \<Rightarrow> ('d, 'p) heap \<Rightarrow> ('d, 'p) heap" where
  "map_records entity [] h = h"
| "map_records entity (a # as) h =
     map_records entity as
       (h\<lparr>dataRecords := (dataRecords h)(a := encode_record entity (dataRecords h a))\<rparr>)"

definition reduce_step ::
  "('d, 'p) entity_module \<Rightarrow> 'p mutation \<times> nat list \<times> ('d, 'p) heap \<Rightarrow> 'd entityObject \<Rightarrow> nat \<Rightarrow>
   'p mutation \<times> nat list \<times> ('d, 'p) heap" where
  \<comment> \<open>the callback of \<^verbatim>\<open>entities.reduce\<close>; \<^verbatim>\<open>insertIndexes\<close> and the heap are threaded\<close>
  "reduce_step entity st entityObject index =
     (case st of (acc, insertIndexes, h) \<Rightarrow>
        (let (b, h1) =
               (case data entityObject of
                  PropertyList as \<Rightarrow> (Property as, map_records entity as h)
                | PropertyBag d \<Rightarrow> (EntityProto (entityToEntityProto entity d), h));
             ent = \<lparr>ent_body = b, ent_key = keyToKeyProto entity (keyObjects h1 (key entityObject))\<rparr>
         in if isKeyComplete entity (keyObjects h1 (key entityObject)) then
              (acc\<lparr>upsert := upsert acc @ [ent]\<rparr>, insertIndexes, h1)
            else
              (acc\<lparr>insert_auto_id := insert_auto_id acc @ [ent]\<rparr>, insertIndexes @ [index], h1)))"

fun reduce_entities ::
  "('d, 'p) entity_module \<Rightarrow> 'd entityObject list \<Rightarrow> nat \<Rightarrow>
   'p mutation \<times> nat list \<times> ('d, 'p) heap \<Rightarrow> 'p mutation \<times> nat list \<times> ('d, 'p) heap" where
  "reduce_entities entity [] index st = st"
| "reduce_entities entity (entityObject # rest) index st =
     reduce_entities entity rest (Suc index) (reduce_step entity st entityObject index)"

text \<open>
  The \<^verbatim>\<open>forEach\<close> of \<^verbatim>\<open>onCommit\<close>. When \<^verbatim>\<open>insertIndexes[index]\<close> is out of range,
  \<^verbatim>\<open>entities[undefined]\<close> is \<^verbatim>\<open>undefined\<close> and reading its \<^verbatim>\<open>key\<close> throws.
\<close>

fun assign_paths ::
  "('d, 'p) entity_module \<Rightarrow> 'd entityObject list \<Rightarrow> nat list \<Rightarrow> 'p list \<Rightarrow> nat \<Rightarrow>
   ('d, 'p) heap \<Rightarrow> js_error option \<times> ('d, 'p) heap" where
  "assign_paths entity entities insertIndexes [] index h = (None, h)"
| "assign_paths entity entities insertIndexes (k # ks) index h =
     (let p = path (keyFromKeyProto entity k) in
      if index < length insertIndexes \<and> insertIndexes ! index < length entities then
        (let a = key (entities ! (insertIndexes ! index)) in
         assign_paths entity entities insertIndexes ks (Suc index)
           (h\<lparr>keyObjects := (keyObjects h)(a := (keyObjects h a)\<lparr>path := p\<rparr>)\<rparr>))
      else (Some TypeError, h))"

definition onCommit ::
  "('d, 'p) entity_module \<Rightarrow> 'f fn \<Rightarrow> 'd entityObject list \<Rightarrow> nat list \<Rightarrow>
   js_error option \<Rightarrow> 'p commit_response option \<Rightarrow> ('d, 'p) heap \<Rightarrow>
   ('f, js_error option) completion \<times> ('d, 'p) heap" where
  \<comment> \<open>\<^verbatim>\<open>resp.mutation_result.insert_auto_id_key\<close> throws when \<^verbatim>\<open>mutation_result\<close> is absent\<close>
  "onCommit entity callback entities insertIndexes err resp h =
     (case (err, resp) of
        (None, Some r) \<Rightarrow>
          (case mutation_result r of
             None \<Rightarrow> (Threw TypeError, h)
           | Some result \<Rightarrow>
               (let autoInserted =
                      (case insert_auto_id_key result of Some ks \<Rightarrow> ks | None \<Rightarrow> [])
                in case assign_paths entity entities insertIndexes autoInserted 0 h of
                     (Some e, h1) \<Rightarrow> (Threw e, h1)
                   | (None, h1) \<Rightarrow> (invoke callback None, h1)))
      | _ \<Rightarrow> (invoke callback err, h))"

definition save ::
  "('d, 'p) entity_module \<Rightarrow> ('f, 'd, 'p) this \<Rightarrow> 'd entityObject one_or_many \<Rightarrow> 'f fn \<Rightarrow>
   ('d, 'p) heap \<Rightarrow> ('p, 'p commit_response) world \<Rightarrow>
   ('f, js_error option) completion \<times> ('f, 'd, 'p) this \<times> ('d, 'p) heap \<times>
   ('p, 'p commit_response) world" where
  "save entity this entities callback h w =
     (let entities1 = toArray entities;
          (acc, insertIndexes, h1) =
            reduce_entities entity entities1 0
              (\<lparr>upsert = [], insert_auto_id = [], delete_keys = []\<rparr>, [], h);
          req = empty_body\<lparr>mutation := Some acc\<rparr>
      in if tid this \<noteq> None then
           (Pending,
            this\<lparr>requests := requests this @ [req],
                 requestCallbacks :=
                   requestCallbacks this @ [OnCommit callback entities1 insertIndexes]\<rparr>,
            h1, w)
         else
           (case makeReq this ''commit'' req w of
              (None, w1) \<Rightarrow> (Pending, this, h1, w1)
            | (Some (Inl err), w1) \<Rightarrow>
                (let (c, h2) = onCommit entity callback entities1 insertIndexes (Some err) None h1
                 in (c, this, h2, w1))
            | (Some (Inr resp), w1) \<Rightarrow>
                (let (c, h2) = onCommit entity callback entities1 insertIndexes None (Some resp) h1
                 in (c, this, h2, w1))))"

subsection \<open>delete\<close>

definition delete ::
  "('d, 'p) entity_module \<Rightarrow> ('f, 'd, 'p) this \<Rightarrow> key one_or_many \<Rightarrow> 'f fn \<Rightarrow>
   ('p, 'p commit_response) world \<Rightarrow>
   ('f, js_error option \<times> 'p commit_response option) completion \<times> ('f, 'd, 'p) this \<times>
   ('p, 'p commit_response) world" where
  "delete entity this keys callback w =
     (let keys1 = toArray keys;
          callback1 = orNoop callback;
          req = empty_body\<lparr>mutation :=
                  Some \<lparr>upsert = [], insert_auto_id = [],
                        delete_keys = map (keyToKeyProto entity) keys1\<rparr>\<rparr>
      in if tid this \<noteq> None then (Pending, this\<lparr>requests := requests this @ [req]\<rparr>, w)
         else
           (case makeReq this ''commit'' req w of
              (None, w1) \<Rightarrow> (Pending, this, w1)
            | (Some (Inl err), w1) \<Rightarrow> (invoke callback1 (Some err, None), this, w1)
            | (Some (Inr resp), w1) \<Rightarrow> (invoke callback1 (None, Some resp), this, w1)))"

subsection \<open>allocateIds\<close>

function push_copies ::
  "('d, 'p) entity_module \<Rightarrow> key \<Rightarrow> int \<Rightarrow> int \<Rightarrow> 'p list \<Rightarrow> 'p list" where
  \<comment> \<open>\<^verbatim>\<open>for (var i = 0; i < n; i++) incompleteKeys.push(...)\<close>\<close>
  "push_copies entity incompleteKey i n incompleteKeys =
     (if i < n then
        push_copies entity incompleteKey (i + 1) n
          (incompleteKeys @ [keyToKeyProto entity incompleteKey])
      else incompleteKeys)"
  by pat_completeness auto
termination
  by (relation "measure (\<lambda>(entity, incompleteKey, i, n, incompleteKeys). nat (n - i))") auto

declare push_copies.simps [simp del]

definition allocateIds ::
  "('d, 'p) entity_module \<Rightarrow> ('f, 'd, 'p) this \<Rightarrow> key \<Rightarrow> int \<Rightarrow> 'f fn \<Rightarrow>
   ('p, 'p allocate_ids_response) world \<Rightarrow>
   ('f, js_error option \<times> key list option) completion \<times> ('p, 'p allocate_ids_response) world" where
  "allocateIds entity this incompleteKey n callback w =
     (if isKeyComplete entity incompleteKey then
        (Threw (Error ''An incomplete key should be provided.''), w)
      else
        (let incompleteKeys = push_copies entity incompleteKey 0 n [];
             req = empty_body\<lparr>body_key := Some incompleteKeys\<rparr>
         in case makeReq this ''allocateIds'' req w of
              (None, w1) \<Rightarrow> (Pending, w1)
            | (Some (Inl err), w1) \<Rightarrow> (invoke callback (Some err, None), w1)
            | (Some (Inr resp), w1) \<Rightarrow>
                (let keys = map (keyFromKeyProto entity)
                              (case resp_key resp of Some ks \<Rightarrow> ks | None \<Rightarrow> [])
                 in (invoke callback (None, Some keys), w1))))"

subsection \<open>runQuery\<close>

text \<open>
  The stream of the streaming mode, as its consumer sees it: the entities pushed, the
  errors emitted, and whether it was ended.
\<close>

record 'd stream =
  pushed :: "'d list"
  errors :: "js_error list"
  ended :: bool

definition stream_push :: "'d \<Rightarrow> 'd stream \<Rightarrow> 'd stream" where
  "stream_push result s = s\<lparr>pushed := pushed s @ [result]\<rparr>"

definition stream_emit_error :: "js_error \<Rightarrow> 'd stream \<Rightarrow> 'd stream" where
  "stream_emit_error err s = s\<lparr>errors := errors s @ [err]\<rparr>"

definition stream_end :: "'d stream \<Rightarrow> 'd stream" where
  "stream_end s = s\<lparr>ended := True\<rparr>"

text \<open>
  \<^verbatim>\<open>while ((result = entities.shift()) && resultsToSend !== 0)\<close>: entities are objects,
  hence truthy; the loop returns the budget left and the stream.
\<close>

fun push_results :: "'d list \<Rightarrow> int \<Rightarrow> 'd stream \<Rightarrow> int \<times> 'd stream" where
  "push_results [] resultsToSend s = (resultsToSend, s)"
| "push_results (result # entities) resultsToSend s =
     (if resultsToSend \<noteq> 0 then push_results entities (resultsToSend - 1) (stream_push result s)
      else (resultsToSend, s))"

text \<open>The variables of \<^verbatim>\<open>runQuery\<close> that its nested function reads and writes.\<close>

record ('d, 'p) query_run =
  req :: "'p body"
  resultsToSend :: int
  stream :: "'d stream option"

definition is_function :: "'f fn \<Rightarrow> bool" where
  \<comment> \<open>\<^verbatim>\<open>util.is(callback, 'function')\<close>\<close>
  "is_function f = (f \<noteq> Undefined)"

text \<open>
  \<open>runQuery_inner\<close> is the nested function \<^verbatim>\<open>runQuery()\<close>. The callback receives
  \<^verbatim>\<open>(err)\<close> or \<^verbatim>\<open>(null, entities, cursor)\<close>.
\<close>

function runQuery_inner ::
  "('d, 'p) entity_module \<Rightarrow> ('f, 'd, 'p) this \<Rightarrow> query \<Rightarrow> 'f fn \<Rightarrow> ('d, 'p) query_run \<Rightarrow>
   ('p, 'p run_query_response) world \<Rightarrow>
   ('f, js_error option \<times> 'd list option \<times> string option) completion \<times> ('d, 'p) query_run \<times>
   ('p, 'p run_query_response) world" where
  "runQuery_inner entity this q callback st w =
     (case makeReq this ''runQuery'' (req st) w of
        (None, w1) \<Rightarrow> (Pending, st, w1)
      | (Some (Inl err), w1) \<Rightarrow>
          (case stream st of
             Some s \<Rightarrow> (Pending, st\<lparr>stream := Some (stream_end (stream_emit_error err s))\<rparr>, w1)
           | None \<Rightarrow> (invoke callback (Some err, None, None), st, w1))
      | (Some (Inr resp), w1) \<Rightarrow>
          (let entities = formatArray entity (entity_result (batch resp));
               cursor = (case end_cursor (batch resp) of Some c \<Rightarrow> toBase64 c | None \<Rightarrow> [])
           in case stream st of
                None \<Rightarrow> (invoke callback (None, Some entities, Some cursor), st, w1)
              | Some s \<Rightarrow>
                  if cursor = [] \<or> length entities = 0 then
                    (Pending, st\<lparr>stream := Some (stream_end s)\<rparr>, w1)
                  else
                    (let (n, s1) = push_results entities (resultsToSend st) s in
                     if n = 0 then
                       (Pending, st\<lparr>resultsToSend := n, stream := Some (stream_end s1)\<rparr>, w1)
                     else
                       runQuery_inner entity this q callback
                         (st\<lparr>req := (req st)\<lparr>query :=
                                 Some (queryToQueryProto entity (offset 0 (start cursor q)))\<rparr>,
                             resultsToSend := n, stream := Some s1\<rparr>)
                         w1)))"
  by pat_completeness auto
termination
proof (relation "measure (\<lambda>(entity, this, q, callback, st, w). length (answers w))")
  show "wf (measure (\<lambda>(entity :: ('d, 'p) entity_module, this :: ('f, 'd, 'p) this, q :: query,
      callback :: 'f fn, st :: ('d, 'p) query_run, w :: ('p, 'p run_query_response) world).
      length (answers w)))"
    by simp
qed (auto simp: makeReq_def makeAuthorizedRequest_def Let_def split: list.splits)

declare runQuery_inner.simps [simp del]

text \<open>
  What the nested function reads from a response: the entities of the page, its cursor
  (\<^verbatim>\<open>''\<close> when the response has none), and whether the page ends the stream
  (\<^verbatim>\<open>!cursor || entities.length === 0\<close>).
\<close>

definition page_entities :: "('d, 'p) entity_module \<Rightarrow> 'p run_query_response \<Rightarrow> 'd list" where
  "page_entities entity resp = formatArray entity (entity_result (batch resp))"

definition page_cursor :: "'p run_query_response \<Rightarrow> string" where
  "page_cursor resp = (case end_cursor (batch resp) of Some c \<Rightarrow> toBase64 c | None \<Rightarrow> [])"

definition ends_stream :: "('d, 'p) entity_module \<Rightarrow> 'p run_query_response \<Rightarrow> bool" where
  "ends_stream entity resp = (page_cursor resp = [] \<or> length (page_entities entity resp) = 0)"

text \<open>
  Without a callback \<^verbatim>\<open>runQuery\<close> returns the stream and dispatches nothing; the first
  \<^verbatim>\<open>reading\<close> event of the stream runs the nested function.
\<close>

definition runQuery ::
  "('d, 'p) entity_module \<Rightarrow> ('f, 'd, 'p) this \<Rightarrow> query \<Rightarrow> 'f fn \<Rightarrow>
   ('p, 'p run_query_response) world \<Rightarrow>
   ('f, js_error option \<times> 'd list option \<times> string option) completion \<times> ('d, 'p) query_run \<times>
   ('p, 'p run_query_response) world" where
  "runQuery entity this q callback w =
     (let req0 = empty_body\<lparr>read_options := Some \<lparr>ro_transaction = None\<rparr>,
                   query := Some (queryToQueryProto entity q)\<rparr>;
          req1 = (case q_namespace q of
                    Some ns \<Rightarrow> if ns \<noteq> [] then req0\<lparr>partition_id := Some \<lparr>pid_namespace = ns\<rparr>\<rparr>
                               else req0
                  | None \<Rightarrow> req0)
      in if \<not> is_function callback then
           (Pending,
            \<lparr>req = req1, resultsToSend = limitVal q,
             stream = Some \<lparr>pushed = [], errors = [], ended = False\<rparr>\<rparr>, w)
         else
           runQuery_inner entity this q callback
             \<lparr>req = req1, resultsToSend = limitVal q, stream = None\<rparr> w)"

definition reading ::
  "('d, 'p) entity_module \<Rightarrow> ('f, 'd, 'p) this \<Rightarrow> query \<Rightarrow> ('d, 'p) query_run \<Rightarrow>
   ('p, 'p run_query_response) world \<Rightarrow> ('d, 'p) query_run \<times> ('p, 'p run_query_response) world" where
  "reading entity this q st w =
     snd (runQuery_inner entity this q (Undefined :: 'f fn) st w)"

subsection \<open>A concrete codec and concrete callers\<close>

text \<open>
  The theorems below hold for every codec module. To run the operations on examples,
  the following module is used. Wire messages wrap the domain values they encode.
\<close>

datatype wire = KeyProto key | EntityMsg string | ValueMsg string | QueryMsg query

text \<open>
  Modelled from the spec: \<^verbatim>\<open>entity.isKeyComplete\<close> (entity.js is not part of the
  sources). A key is complete iff its final path segment has an identifier.
\<close>

definition final_segment_has_id :: "key \<Rightarrow> bool" where
  "final_segment_has_id k = (case path k of [] \<Rightarrow> False | _ \<Rightarrow> snd (last (path k)) \<noteq> None)"

definition codec :: "(string, wire) entity_module" where
  "codec = \<lparr>keyToKeyProto = KeyProto,
     keyFromKeyProto = (\<lambda>p. case p of KeyProto k \<Rightarrow> k | _ \<Rightarrow> \<lparr>namespace = None, path = []\<rparr>),
     isKeyComplete = final_segment_has_id,
     entityToEntityProto = EntityMsg,
     valueToProperty =
       (\<lambda>v. case v of Domain d \<Rightarrow> \<lparr>payload = ValueMsg d, indexed = None\<rparr> | Wire p \<Rightarrow> p),
     formatArray = map (\<lambda>p. case p of EntityMsg d \<Rightarrow> d | _ \<Rightarrow> []),
     queryToQueryProto = QueryMsg\<rparr>"

definition dataset :: "(nat, string, wire) this" where
  \<comment> \<open>a caller with no transaction bound\<close>
  "dataset = \<lparr>tid = None, projectId = ''proj'', requests = [], requestCallbacks = []\<rparr>"

definition txn :: "(nat, string, wire) this" where
  \<comment> \<open>a caller bound to the transaction \<open>''tx''\<close>\<close>
  "txn = \<lparr>tid = Some ''tx'', projectId = ''proj'', requests = [], requestCallbacks = []\<rparr>"

definition answering :: "(js_error + 'r) list \<Rightarrow> (wire, 'r) world" where
  \<comment> \<open>a transport that has dispatched nothing yet and will give these answers\<close>
  "answering as = \<lparr>answers = as, dispatched = []\<rparr>"

definition company :: key where
  "company = \<lparr>namespace = None, path = [(''Company'', None)]\<rparr>"

definition company123 :: key where
  "company123 = \<lparr>namespace = None, path = [(''Company'', Some (Id 123))]\<rparr>"

definition product :: key where
  "product = \<lparr>namespace = None, path = [(''Product'', None)]\<rparr>"

definition company7 :: key where
  "company7 = \<lparr>namespace = None, path = [(''Company'', Some (Id 7))]\<rparr>"

definition product8 :: key where
  "product8 = \<lparr>namespace = None, path = [(''Product'', Some (Id 8))]\<rparr>"

definition lookup_answer :: "string list \<Rightarrow> key list \<Rightarrow> wire lookup_response" where
  \<comment> \<open>a lookup response that found these entities and deferred these keys\<close>
  "lookup_answer es ks =
     \<lparr>found = map EntityMsg es, deferred = (if ks = [] then None else Some (map KeyProto ks))\<rparr>"

definition heap0 :: "(string, wire) heap" where
  \<comment> \<open>three key objects, at addresses 0, 1 and 2, and data records for one property\<close>
  "heap0 = \<lparr>keyObjects = (\<lambda>a. if a = 0 then company else if a = 1 then company123 else product),
     dataRecords = (\<lambda>a. \<lparr>name = ''rating'', val = Domain ''10'', excludeFromIndexes = Some False\<rparr>)\<rparr>"

definition entA :: "string entityObject" where
  "entA = \<lparr>key = 0, data = PropertyBag ''A''\<rparr>"

definition entB :: "string entityObject" where
  "entB = \<lparr>key = 1, data = PropertyBag ''B''\<rparr>"

definition entC :: "string entityObject" where
  "entC = \<lparr>key = 2, data = PropertyBag ''C''\<rparr>"

definition entL :: "string entityObject" where
  \<comment> \<open>a descriptor with a complete key whose data is an explicit property list\<close>
  "entL = \<lparr>key = 1, data = PropertyList [0]\<rparr>"

definition commit_answer :: "key list \<Rightarrow> wire commit_response" where
  \<comment> \<open>a commit response carrying these generated keys\<close>
  "commit_answer ks =
     \<lparr>mutation_result = Some \<lparr>insert_auto_id_key = Some (map KeyProto ks)\<rparr>\<rparr>"

definition allocate_answer :: "key list \<Rightarrow> wire allocate_ids_response" where
  "allocate_answer ks = \<lparr>resp_key = Some (map KeyProto ks)\<rparr>"

definition page :: "string list \<Rightarrow> string \<Rightarrow> wire run_query_response" where
  \<comment> \<open>a query response with these entities and this cursor (none when empty)\<close>
  "page es c =
     \<lparr>batch = \<lparr>entity_result = map EntityMsg es,
               end_cursor = (if c = [] then None else Some (ByteBuffer c))\<rparr>\<rparr>"

definition limited :: "int \<Rightarrow> query" where
  \<comment> \<open>a query with this client-side limit\<close>
  "limited n = \<lparr>q_namespace = None, limitVal = n, startVal = None, offsetVal = 0\<rparr>"

section \<open>Properties\<close>

subsection \<open>The dispatcher\<close>

lemma makeReq_Nil:
  "answers w = [] \<Longrightarrow> fst (makeReq this meth b w) = None"
  by (simp add: makeReq_def makeAuthorizedRequest_def Let_def)

lemma makeReq_Cons:
  "answers w = a # as \<Longrightarrow>
   \<exists>w1. makeReq this meth b w = (Some a, w1) \<and> answers w1 = as \<and>
        map (\<lambda>x. (action x, body_key (body x))) (dispatched w1) =
        map (\<lambda>x. (action x, body_key (body x))) (dispatched w) @ [(meth, body_key b)]"
  by (simp add: makeReq_def makeAuthorizedRequest_def frame_body_def Let_def split: option.splits)

text \<open>
  C9. The body that \<open>makeReq\<close> hands to the transport: for \<^verbatim>\<open>commit\<close> with a bound
  transaction identifier the mode is transactional and the identifier is attached; for
  \<^verbatim>\<open>commit\<close> without one the mode is non-transactional; for \<^verbatim>\<open>lookup\<close> with a bound
  identifier it is attached under the read-options (created when absent); in every
  other case the body is dispatched as it was given.
\<close>

theorem makeReq_framing:
  "(meth = ''commit'' \<and> tid this = Some t \<longrightarrow>
      map body (dispatched (snd (makeReq this meth b w))) =
      map body (dispatched w) @ [b\<lparr>mode := Some MODE_TRANSACTIONAL, transaction := Some t\<rparr>]) \<and>
   (meth = ''commit'' \<and> tid this = None \<longrightarrow>
      map body (dispatched (snd (makeReq this meth b w))) =
      map body (dispatched w) @ [b\<lparr>mode := Some MODE_NON_TRANSACTIONAL\<rparr>]) \<and>
   (meth = ''lookup'' \<and> tid this = Some t \<longrightarrow>
      map body (dispatched (snd (makeReq this meth b w))) =
      map body (dispatched w) @
        [b\<lparr>read_options :=
             Some ((case read_options b of Some ro \<Rightarrow> ro | None \<Rightarrow> \<lparr>ro_transaction = None\<rparr>)
                   \<lparr>ro_transaction := Some t\<rparr>)\<rparr>]) \<and>
   (meth \<noteq> ''commit'' \<and> \<not> (meth = ''lookup'' \<and> tid this \<noteq> None) \<longrightarrow>
      map body (dispatched (snd (makeReq this meth b w))) = map body (dispatched w) @ [b])"
  by (auto simp: makeReq_def makeAuthorizedRequest_def frame_body_def Let_def split: list.splits)

theorem makeReq_framing_witness:
  "map body (dispatched (snd (makeReq txn ''commit'' empty_body (answering [] :: (wire, unit) world)))) =
     [empty_body\<lparr>mode := Some ''TRANSACTIONAL'', transaction := Some ''tx''\<rparr>] \<and>
   map body (dispatched (snd (makeReq dataset ''commit'' empty_body (answering [] :: (wire, unit) world)))) =
     [empty_body\<lparr>mode := Some ''NON_TRANSACTIONAL''\<rparr>] \<and>
   map body (dispatched (snd (makeReq txn ''lookup'' empty_body (answering [] :: (wire, unit) world)))) =
     [empty_body\<lparr>read_options := Some \<lparr>ro_transaction = Some ''tx''\<rparr>\<rparr>] \<and>
   map body (dispatched (snd (makeReq txn ''runQuery'' empty_body (answering [] :: (wire, unit) world)))) =
     [empty_body]"
  using makeReq_framing [of "''commit''" txn "''tx''" empty_body "answering [] :: (wire, unit) world"]
    makeReq_framing [of "''commit''" dataset "''tx''" empty_body "answering [] :: (wire, unit) world"]
    makeReq_framing [of "''lookup''" txn "''tx''" empty_body "answering [] :: (wire, unit) world"]
    makeReq_framing [of "''runQuery''" txn "''tx''" empty_body "answering [] :: (wire, unit) world"]
  by (simp add: txn_def dataset_def answering_def MODE_TRANSACTIONAL_def MODE_NON_TRANSACTIONAL_def
      empty_body_def)

subsection \<open>get\<close>

lemma invoke_orNoop:
  "invoke (orNoop f) a = Invoked (orNoop f) a"
  by (cases f) (simp_all add: invoke_def orNoop_def)

lemma get_answer_none:
  assumes "makeReq this ''lookup''
             (empty_body\<lparr>body_key := Some (map (keyToKeyProto entity) (toArray keys))\<rparr>) w
           = (None, w1)"
  shows "get entity this keys callback w = (Pending, w1)"
  using assms by (subst get.simps) (simp add: Let_def)

lemma get_answer_error:
  assumes "makeReq this ''lookup''
             (empty_body\<lparr>body_key := Some (map (keyToKeyProto entity) (toArray keys))\<rparr>) w
           = (Some (Inl err), w1)"
  shows "get entity this keys callback w = (invoke (orNoop callback) (Some err, Nil), w1)"
  using assms by (subst get.simps) (simp add: Let_def)

lemma get_answer_final:
  assumes "makeReq this ''lookup''
             (empty_body\<lparr>body_key := Some (map (keyToKeyProto entity) (toArray keys))\<rparr>) w
           = (Some (Inr resp), w1)"
    and "\<not> isArray keys \<or> deferred_keys resp = []"
  shows "get entity this keys callback w =
         (invoke (orNoop callback)
            (None, if isArray keys then Entities (formatArray entity (found resp))
                   else first_of (formatArray entity (found resp))), w1)"
  using assms by (subst get.simps) (auto simp add: Let_def)

lemma get_answer_deferred:
  assumes "makeReq this ''lookup''
             (empty_body\<lparr>body_key := Some (map (keyToKeyProto entity) (toArray keys))\<rparr>) w
           = (Some (Inr resp), w1)"
    and "isArray keys" and "deferred_keys resp \<noteq> []"
  shows "get entity this keys callback w =
         (case get entity this (Many (map (keyFromKeyProto entity) (deferred_keys resp))) Closure w1 of
            (Invoked _ (Some err, _), w2) \<Rightarrow> (invoke (orNoop callback) (Some err, Nil), w2)
          | (Invoked _ (None, entities), w2) \<Rightarrow>
              (invoke (orNoop callback)
                 (None, Entities (concat_result (formatArray entity (found resp)) entities)), w2)
          | (Pending, w2) \<Rightarrow> (Pending, w2)
          | (Threw e, w2) \<Rightarrow> (Threw e, w2))"
  using assms by (subst get.simps) (simp add: Let_def)

text \<open>
  C2. A batch \<open>get\<close> whose first \<open>n\<close> answers each defer some keys and whose next
  answer defers none: every deferring answer is followed by one more lookup, for
  exactly the keys it deferred; the callback receives, without error, the entities
  found by all \<open>n + 1\<close> answers, in that order; and no further answer is consumed.
  This holds for every \<open>n\<close>.
\<close>

theorem get_resolves_deferred:
  assumes "answers w = map Inr ds @ Inr r # rest"
    and "\<forall>d \<in> set ds. deferred_keys d \<noteq> []"
    and "deferred_keys r = []"
  shows "\<exists>w1. get entity this (Many ks) callback w =
           (Invoked (orNoop callback)
              (None, Entities (concat (map (\<lambda>x. formatArray entity (found x)) (ds @ [r])))), w1) \<and>
         answers w1 = rest \<and>
         map (\<lambda>x. (action x, body_key (body x))) (dispatched w1) =
           map (\<lambda>x. (action x, body_key (body x))) (dispatched w) @
           (''lookup'', Some (map (keyToKeyProto entity) ks)) #
           map (\<lambda>d. (''lookup'',
                  Some (map (keyToKeyProto entity) (map (keyFromKeyProto entity) (deferred_keys d))))) ds"
  using assms
proof (induction ds arbitrary: ks callback w)
  case Nil
  then have a: "answers w = Inr r # rest" by simp
  from makeReq_Cons [OF a, of this "''lookup''"
      "empty_body\<lparr>body_key := Some (map (keyToKeyProto entity) ks)\<rparr>"]
  obtain w1 where m: "makeReq this ''lookup''
        (empty_body\<lparr>body_key := Some (map (keyToKeyProto entity) ks)\<rparr>) w = (Some (Inr r), w1)"
    and r: "answers w1 = rest"
    and d: "map (\<lambda>x. (action x, body_key (body x))) (dispatched w1) =
        map (\<lambda>x. (action x, body_key (body x))) (dispatched w) @
        [(''lookup'', Some (map (keyToKeyProto entity) ks))]"
    by auto
  have "get entity this (Many ks) callback w =
      (invoke (orNoop callback) (None, Entities (formatArray entity (found r))), w1)"
    using get_answer_final [of this entity "Many ks" w r w1 callback] m Nil.prems(3)
    by (simp add: toArray_def isArray_def)
  with r d show ?case by (simp add: invoke_orNoop)
next
  case (Cons d ds)
  then have a: "answers w = Inr d # (map Inr ds @ Inr r # rest)" by simp
  from makeReq_Cons [OF a, of this "''lookup''"
      "empty_body\<lparr>body_key := Some (map (keyToKeyProto entity) ks)\<rparr>"]
  obtain w1 where m: "makeReq this ''lookup''
        (empty_body\<lparr>body_key := Some (map (keyToKeyProto entity) ks)\<rparr>) w = (Some (Inr d), w1)"
    and r: "answers w1 = map Inr ds @ Inr r # rest"
    and l: "map (\<lambda>x. (action x, body_key (body x))) (dispatched w1) =
        map (\<lambda>x. (action x, body_key (body x))) (dispatched w) @
        [(''lookup'', Some (map (keyToKeyProto entity) ks))]"
    by auto
  from Cons.prems have dd: "deferred_keys d \<noteq> []" and rest: "\<forall>d \<in> set ds. deferred_keys d \<noteq> []"
    by simp_all
  from Cons.IH [OF r rest Cons.prems(3), of "map (keyFromKeyProto entity) (deferred_keys d)" Closure]
  obtain w2 where g: "get entity this (Many (map (keyFromKeyProto entity) (deferred_keys d))) Closure w1 =
        (Invoked Closure
           (None, Entities (concat (map (\<lambda>x. formatArray entity (found x)) (ds @ [r])))), w2)"
    and r2: "answers w2 = rest"
    and l2: "map (\<lambda>x. (action x, body_key (body x))) (dispatched w2) =
        map (\<lambda>x. (action x, body_key (body x))) (dispatched w1) @
        (''lookup'', Some (map (keyToKeyProto entity) (map (keyFromKeyProto entity) (deferred_keys d)))) #
        map (\<lambda>d. (''lookup'',
               Some (map (keyToKeyProto entity) (map (keyFromKeyProto entity) (deferred_keys d))))) ds"
    by (auto simp: orNoop_def)
  have "get entity this (Many ks) callback w =
      (invoke (orNoop callback)
         (None, Entities (formatArray entity (found d) @
            concat (map (\<lambda>x. formatArray entity (found x)) (ds @ [r])))), w2)"
    using get_answer_deferred [of this entity "Many ks" w d w1 callback] m dd g
    by (simp add: toArray_def isArray_def concat_result_def)
  with r2 l2 l show ?case by (simp add: invoke_orNoop)
qed

theorem get_resolves_deferred_witness:
  "fst (get codec dataset (Many [company123, company7, product8]) (UserFn 1)
         (answering [Inr (lookup_answer [''a'', ''b'', ''c''] [])])) =
     Invoked (UserFn 1) (None, Entities [''a'', ''b'', ''c'']) \<and>
   fst (get codec dataset (Many [company123, company7, product8]) (UserFn 1)
         (answering [Inr (lookup_answer [''a''] [company7, product8]),
                     Inr (lookup_answer [''b'', ''c''] [])])) =
     Invoked (UserFn 1) (None, Entities [''a'', ''b'', ''c'']) \<and>
   (let w = snd (get codec dataset (Many [company123, company7, product8]) (UserFn 1)
         (answering [Inr (lookup_answer [''a''] [company7, product8]),
                     Inr (lookup_answer [] [company7, product8]),
                     Inr (lookup_answer [''b''] [product8]),
                     Inr (lookup_answer [''c''] [])]))
    in map (\<lambda>x. body_key (body x)) (dispatched w) =
         [Some (map KeyProto [company123, company7, product8]),
          Some (map KeyProto [company7, product8]),
          Some (map KeyProto [company7, product8]),
          Some (map KeyProto [product8])]) \<and>
   fst (get codec dataset (Many [company123, company7, product8]) (UserFn 1)
         (answering [Inr (lookup_answer [''a''] [company7, product8]),
                     Inr (lookup_answer [] [company7, product8]),
                     Inr (lookup_answer [''b''] [product8]),
                     Inr (lookup_answer [''c''] [])])) =
     Invoked (UserFn 1) (None, Entities [''a'', ''b'', ''c''])"
proof -
  let ?ks = "[company123, company7, product8]"
  let ?d1 = "lookup_answer [''a''] [company7, product8]"
  let ?d2 = "lookup_answer [] [company7, product8]"
  let ?d3 = "lookup_answer [''b''] [product8]"
  have r0: "deferred_keys (lookup_answer [''a'', ''b'', ''c''] []) = []"
    and r1: "deferred_keys (lookup_answer [''b'', ''c''] []) = []"
    and r3: "deferred_keys (lookup_answer [''c''] []) = []"
    by (simp_all add: deferred_keys_def lookup_answer_def)
  have d1: "\<forall>d \<in> set [?d1]. deferred_keys d \<noteq> []"
    and d3: "\<forall>d \<in> set [?d1, ?d2, ?d3]. deferred_keys d \<noteq> []"
    by (simp_all add: deferred_keys_def lookup_answer_def)
  have a0: "answers (answering [Inr (lookup_answer [''a'', ''b'', ''c''] [])] :: (wire, wire lookup_response) world) =
      map Inr [] @ Inr (lookup_answer [''a'', ''b'', ''c''] []) # []"
    and a1: "answers (answering [Inr ?d1, Inr (lookup_answer [''b'', ''c''] [])] :: (wire, wire lookup_response) world) =
      map Inr [?d1] @ Inr (lookup_answer [''b'', ''c''] []) # []"
    and a3: "answers (answering [Inr ?d1, Inr ?d2, Inr ?d3, Inr (lookup_answer [''c''] [])] :: (wire, wire lookup_response) world) =
      map Inr [?d1, ?d2, ?d3] @ Inr (lookup_answer [''c''] []) # []"
    by (simp_all add: answering_def)
  show ?thesis
    using get_resolves_deferred [OF a0 _ r0, of codec dataset ?ks "UserFn 1"]
      get_resolves_deferred [OF a1 d1 r1, of codec dataset ?ks "UserFn 1"]
      get_resolves_deferred [OF a3 d3 r3, of codec dataset ?ks "UserFn 1"]
    by (auto simp: Let_def orNoop_def codec_def lookup_answer_def answering_def deferred_keys_def)
qed

lemma makeReq_cases:
  "(\<exists>w1. makeReq this meth b w = (None, w1) \<and> answers w = []) \<or>
   (\<exists>a w1. makeReq this meth b w = (Some a, w1) \<and> answers w = a # answers w1)"
  by (cases "answers w") (simp_all add: makeReq_def makeAuthorizedRequest_def Let_def)

text \<open>
  Every way a \<open>get\<close> can complete: not at all, with an error and no result, or without
  error and with a result whose shape follows the shape of the argument.
\<close>

lemma get_completion_cases:
  "fst (get entity this keys callback w) = Pending \<or>
   (\<exists>e. fst (get entity this keys callback w) = Invoked (orNoop callback) (Some e, Nil)) \<or>
   (\<exists>es. isArray keys \<and>
      fst (get entity this keys callback w) = Invoked (orNoop callback) (None, Entities es)) \<or>
   (\<not> isArray keys \<and>
      fst (get entity this keys callback w) = Invoked (orNoop callback) (None, Nil)) \<or>
   (\<exists>x. \<not> isArray keys \<and>
      fst (get entity this keys callback w) = Invoked (orNoop callback) (None, Entity x))"
proof (induction "answers w" arbitrary: w keys callback)
  case Nil
  then obtain w1 where "makeReq this ''lookup''
      (empty_body\<lparr>body_key := Some (map (keyToKeyProto entity) (toArray keys))\<rparr>) w = (None, w1)"
    using makeReq_cases [of this "''lookup''" _ w] by fastforce
  then show ?case by (simp add: get_answer_none)
next
  case (Cons a as)
  let ?req = "empty_body\<lparr>body_key := Some (map (keyToKeyProto entity) (toArray keys))\<rparr>"
  from Cons.hyps(2) obtain w1 where m: "makeReq this ''lookup'' ?req w = (Some a, w1)"
    and as: "as = answers w1"
    using makeReq_cases [of this "''lookup''" ?req w] by fastforce
  show ?case
  proof (cases a)
    case (Inl err)
    with m show ?thesis by (simp add: get_answer_error invoke_orNoop)
  next
    case (Inr resp)
    show ?thesis
    proof (cases "isArray keys \<and> deferred_keys resp \<noteq> []")
      case False
      with m Inr have "get entity this keys callback w =
          (invoke (orNoop callback)
            (None, if isArray keys then Entities (formatArray entity (found resp))
                   else first_of (formatArray entity (found resp))), w1)"
        by (intro get_answer_final) auto
      then show ?thesis
        by (cases "formatArray entity (found resp)") (auto simp: invoke_orNoop first_of_def)
    next
      case True
      let ?inner = "get entity this (Many (map (keyFromKeyProto entity) (deferred_keys resp))) Closure w1"
      from True m Inr have g: "get entity this keys callback w =
          (case ?inner of
            (Invoked _ (Some err, _), w2) \<Rightarrow> (invoke (orNoop callback) (Some err, Nil), w2)
          | (Invoked _ (None, entities), w2) \<Rightarrow>
              (invoke (orNoop callback)
                 (None, Entities (concat_result (formatArray entity (found resp)) entities)), w2)
          | (Pending, w2) \<Rightarrow> (Pending, w2)
          | (Threw e, w2) \<Rightarrow> (Threw e, w2))"
        by (intro get_answer_deferred) auto
      from Cons.hyps(1) [OF as, of "Many (map (keyFromKeyProto entity) (deferred_keys resp))" Closure]
      have "fst ?inner = Pending \<or>
          (\<exists>e. fst ?inner = Invoked Closure (Some e, Nil)) \<or>
          (\<exists>es. fst ?inner = Invoked Closure (None, Entities es))"
        by (auto simp: orNoop_def isArray_def)
      with g True show ?thesis
        by (cases ?inner) (auto simp: invoke_orNoop)
    qed
  qed
qed

text \<open>
  C4. With a single key, whatever the callback receives as its result is one entity or
  nothing, never an array. With an array of keys, of any length, the callback receives
  either an error and no result, or no error and an array.
\<close>

theorem get_result_shape:
  "(\<forall>f err es. fst (get entity this (One k) callback w) \<noteq> Invoked f (err, Entities es)) \<and>
   (\<forall>f r. fst (get entity this (Many ks) callback w) = Invoked f (None, r) \<longrightarrow>
           (\<exists>es. r = Entities es)) \<and>
   (\<forall>f e r. fst (get entity this (Many ks) callback w) = Invoked f (Some e, r) \<longrightarrow> r = Nil)"
  using get_completion_cases [of entity this "One k" callback w]
    get_completion_cases [of entity this "Many ks" callback w]
  by (auto simp: isArray_def)

theorem get_result_shape_witness:
  "fst (get codec dataset (One company123) (UserFn 1) (answering [Inr (lookup_answer [''a''] [])])) =
     Invoked (UserFn 1) (None, Entity ''a'') \<and>
   fst (get codec dataset (One company123) (UserFn 1) (answering [Inr (lookup_answer [] [])])) =
     Invoked (UserFn 1) (None, Nil) \<and>
   fst (get codec dataset (Many [company123]) (UserFn 1) (answering [Inr (lookup_answer [''a''] [])])) =
     Invoked (UserFn 1) (None, Entities [''a'']) \<and>
   fst (get codec dataset (Many [company123]) (UserFn 1) (answering [Inr (lookup_answer [] [])])) =
     Invoked (UserFn 1) (None, Entities []) \<and>
   fst (get codec dataset (Many [company123]) (UserFn 1) (answering [Inl (Error ''down'')])) =
     Invoked (UserFn 1) (Some (Error ''down''), Nil)"
  using get_result_shape [of codec dataset company123 "UserFn 1"
      "answering [Inr (lookup_answer [''a''] [])]" "[company123]"]
  by (simp add: get.simps Let_def isArray_def toArray_def
      orNoop_def invoke_def makeReq_def makeAuthorizedRequest_def answering_def lookup_answer_def
      deferred_keys_def first_of_def codec_def)

subsection \<open>save and delete: buffering and dispatch\<close>

lemma makeReq_dispatched:
  "map (\<lambda>x. (action x, body x)) (dispatched (snd (makeReq this meth b w))) =
   map (\<lambda>x. (action x, body x)) (dispatched w) @ [(meth, frame_body this meth b)]"
  by (simp add: makeReq_def makeAuthorizedRequest_def Let_def split: list.splits)

lemma frame_body_commit_unbound:
  "tid this = None \<Longrightarrow> frame_body this ''commit'' b = b\<lparr>mode := Some MODE_NON_TRANSACTIONAL\<rparr>"
  by (simp add: frame_body_def)

lemma save_unbound_world:
  assumes "tid this = None"
  shows "snd (snd (snd (save entity this entities callback h w))) =
         snd (makeReq this ''commit''
           (empty_body\<lparr>mutation := Some (fst (reduce_entities entity (toArray entities) 0
              (\<lparr>upsert = [], insert_auto_id = [], delete_keys = []\<rparr>, [], h)))\<rparr>) w)"
  using assms
  by (simp add: save_def Let_def split: prod.splits option.splits sum.splits)

lemma delete_unbound_world:
  assumes "tid this = None"
  shows "snd (snd (delete entity this keys callback w)) =
         snd (makeReq this ''commit''
           (empty_body\<lparr>mutation := Some \<lparr>upsert = [], insert_auto_id = [],
              delete_keys = map (keyToKeyProto entity) (toArray keys)\<rparr>\<rparr>) w)"
  using assms
  by (simp add: delete_def Let_def split: prod.splits option.splits sum.splits)

text \<open>
  C5. While a transaction identifier is bound, \<open>save\<close> appends the request it built to
  the pending requests and its continuation \<^verbatim>\<open>onCommit\<close> to the pending continuations,
  and \<open>delete\<close> appends its request to the pending requests and nothing to the pending
  continuations; neither touches the transport. With no identifier bound, each
  dispatches one \<^verbatim>\<open>commit\<close> carrying that request, in non-transactional mode, and
  queues nothing.
\<close>

theorem save_delete_buffer_or_dispatch:
  "(tid this \<noteq> None \<longrightarrow>
      (case reduce_entities entity (toArray entities) 0
              (\<lparr>upsert = [], insert_auto_id = [], delete_keys = []\<rparr>, [], h) of
         (acc, insertIndexes, h1) \<Rightarrow>
           save entity this entities callback h w =
             (Pending,
              this\<lparr>requests := requests this @ [empty_body\<lparr>mutation := Some acc\<rparr>],
                   requestCallbacks := requestCallbacks this @
                     [OnCommit callback (toArray entities) insertIndexes]\<rparr>,
              h1, w)) \<and>
      delete entity this keys callback2 w2 =
        (Pending,
         this\<lparr>requests := requests this @
                [empty_body\<lparr>mutation := Some \<lparr>upsert = [], insert_auto_id = [],
                   delete_keys = map (keyToKeyProto entity) (toArray keys)\<rparr>\<rparr>]\<rparr>,
         w2)) \<and>
   (tid this = None \<longrightarrow>
      fst (snd (save entity this entities callback h w)) = this \<and>
      map (\<lambda>x. (action x, body x))
        (dispatched (snd (snd (snd (save entity this entities callback h w))))) =
      map (\<lambda>x. (action x, body x)) (dispatched w) @
        [(''commit'',
          empty_body\<lparr>mutation := Some (fst (reduce_entities entity (toArray entities) 0
               (\<lparr>upsert = [], insert_auto_id = [], delete_keys = []\<rparr>, [], h))),
             mode := Some MODE_NON_TRANSACTIONAL\<rparr>)] \<and>
      fst (snd (delete entity this keys callback2 w2)) = this \<and>
      map (\<lambda>x. (action x, body x)) (dispatched (snd (snd (delete entity this keys callback2 w2)))) =
      map (\<lambda>x. (action x, body x)) (dispatched w2) @
        [(''commit'',
          empty_body\<lparr>mutation := Some \<lparr>upsert = [], insert_auto_id = [],
               delete_keys = map (keyToKeyProto entity) (toArray keys)\<rparr>,
             mode := Some MODE_NON_TRANSACTIONAL\<rparr>)])"
proof (intro conjI impI)
  assume "tid this \<noteq> None"
  then show "case reduce_entities entity (toArray entities) 0
              (\<lparr>upsert = [], insert_auto_id = [], delete_keys = []\<rparr>, [], h) of
         (acc, insertIndexes, h1) \<Rightarrow>
           save entity this entities callback h w =
             (Pending,
              this\<lparr>requests := requests this @ [empty_body\<lparr>mutation := Some acc\<rparr>],
                   requestCallbacks := requestCallbacks this @
                     [OnCommit callback (toArray entities) insertIndexes]\<rparr>,
              h1, w)"
    by (simp add: save_def Let_def split: prod.splits)
next
  assume "tid this \<noteq> None"
  then show "delete entity this keys callback2 w2 =
        (Pending,
         this\<lparr>requests := requests this @
                [empty_body\<lparr>mutation := Some \<lparr>upsert = [], insert_auto_id = [],
                   delete_keys = map (keyToKeyProto entity) (toArray keys)\<rparr>\<rparr>]\<rparr>,
         w2)"
    by (simp add: delete_def Let_def)
next
  assume "tid this = None"
  then show "fst (snd (save entity this entities callback h w)) = this"
    by (simp add: save_def Let_def split: prod.splits option.splits sum.splits)
next
  assume u: "tid this = None"
  show "map (\<lambda>x. (action x, body x))
        (dispatched (snd (snd (snd (save entity this entities callback h w))))) =
      map (\<lambda>x. (action x, body x)) (dispatched w) @
        [(''commit'',
          empty_body\<lparr>mutation := Some (fst (reduce_entities entity (toArray entities) 0
               (\<lparr>upsert = [], insert_auto_id = [], delete_keys = []\<rparr>, [], h))),
             mode := Some MODE_NON_TRANSACTIONAL\<rparr>)]"
    by (simp only: save_unbound_world [OF u] makeReq_dispatched frame_body_commit_unbound [OF u])
next
  assume "tid this = None"
  then show "fst (snd (delete entity this keys callback2 w2)) = this"
    by (simp add: delete_def Let_def split: prod.splits option.splits sum.splits)
next
  assume u: "tid this = None"
  show "map (\<lambda>x. (action x, body x)) (dispatched (snd (snd (delete entity this keys callback2 w2)))) =
      map (\<lambda>x. (action x, body x)) (dispatched w2) @
        [(''commit'',
          empty_body\<lparr>mutation := Some \<lparr>upsert = [], insert_auto_id = [],
               delete_keys = map (keyToKeyProto entity) (toArray keys)\<rparr>,
             mode := Some MODE_NON_TRANSACTIONAL\<rparr>)]"
    by (simp only: delete_unbound_world [OF u] makeReq_dispatched frame_body_commit_unbound [OF u])
qed

theorem save_delete_buffer_or_dispatch_witness:
  "tid txn \<noteq> None \<and>
   save codec txn (Many [entA, entB, entC]) (UserFn 1) heap0 (answering []) =
     (Pending,
      txn\<lparr>requests :=
            [empty_body\<lparr>mutation := Some
               \<lparr>upsert = [\<lparr>ent_body = EntityProto (EntityMsg ''B''), ent_key = KeyProto company123\<rparr>],
                insert_auto_id =
                  [\<lparr>ent_body = EntityProto (EntityMsg ''A''), ent_key = KeyProto company\<rparr>,
                   \<lparr>ent_body = EntityProto (EntityMsg ''C''), ent_key = KeyProto product\<rparr>],
                delete_keys = []\<rparr>\<rparr>],
          requestCallbacks := [OnCommit (UserFn 1) [entA, entB, entC] [0, 2]]\<rparr>,
      heap0, answering []) \<and>
   delete codec txn (One company123) (UserFn 2) (answering []) =
     (Pending,
      txn\<lparr>requests :=
            [empty_body\<lparr>mutation := Some
               \<lparr>upsert = [], insert_auto_id = [], delete_keys = [KeyProto company123]\<rparr>\<rparr>]\<rparr>,
      answering []) \<and>
   tid dataset = None \<and>
   map fst (map (\<lambda>x. (action x, body x)) (dispatched (snd (snd (snd
     (save codec dataset (Many [entA, entB, entC]) (UserFn 1) heap0 (answering []))))))) =
     [''commit''] \<and>
   map fst (map (\<lambda>x. (action x, body x)) (dispatched (snd (snd
     (delete codec dataset (One company123) (UserFn 2) (answering [])))))) = [''commit'']"
proof -
  have t: "tid txn \<noteq> None" and d: "tid dataset = None"
    by (simp_all add: txn_def dataset_def)
  have r: "reduce_entities codec [entA, entB, entC] 0
      (\<lparr>upsert = [], insert_auto_id = [], delete_keys = []\<rparr>, [], heap0) =
      (\<lparr>upsert = [\<lparr>ent_body = EntityProto (EntityMsg ''B''), ent_key = KeyProto company123\<rparr>],
        insert_auto_id =
          [\<lparr>ent_body = EntityProto (EntityMsg ''A''), ent_key = KeyProto company\<rparr>,
           \<lparr>ent_body = EntityProto (EntityMsg ''C''), ent_key = KeyProto product\<rparr>],
        delete_keys = []\<rparr>, [0, 2], heap0)"
    by (simp add: reduce_step_def codec_def heap0_def entA_def entB_def entC_def
        final_segment_has_id_def company_def company123_def product_def)
  show ?thesis
    using save_delete_buffer_or_dispatch [where this = txn and entity = codec
        and entities = "Many [entA, entB, entC]" and h = heap0 and callback = "UserFn 1"
        and w = "answering []" and keys = "One company123" and ?callback2.0 = "UserFn 2"
        and ?w2.0 = "answering []"]
      save_delete_buffer_or_dispatch [where this = dataset and entity = codec
        and entities = "Many [entA, entB, entC]" and h = heap0 and callback = "UserFn 1"
        and w = "answering []" and keys = "One company123" and ?callback2.0 = "UserFn 2"
        and ?w2.0 = "answering []"]
      t d r
    by (simp add: toArray_def txn_def codec_def answering_def del: map_map)
qed

subsection \<open>allocateIds\<close>

lemma push_copies_replicate:
  "push_copies entity k i n acc = acc @ replicate (nat (n - i)) (keyToKeyProto entity k)"
proof (induction entity k i n acc rule: push_copies.induct)
  case (1 entity k i n acc)
  show ?case
  proof (cases "i < n")
    case True
    then have "nat (n - i) = Suc (nat (n - (i + 1)))" by simp
    with True "1" show ?thesis
      by (subst push_copies.simps) (simp add: replicate_append_same [symmetric])
  next
    case False
    then show ?thesis by (subst push_copies.simps) simp
  qed
qed

lemma frame_body_allocateIds:
  "frame_body this ''allocateIds'' b = b"
  by (simp add: frame_body_def)

text \<open>
  C7. Given a complete key, \<open>allocateIds\<close> throws at once and the transport is left as
  it was: nothing is dispatched and no answer is consumed. Given an incomplete key, it
  dispatches one \<^verbatim>\<open>allocateIds\<close> request whose key list is \<open>n\<close> copies of the encoded key;
  on a response the callback receives the decoded keys of the response in the order of
  the response, and on an error it receives the error.
\<close>

theorem allocateIds_complete_or_dispatch:
  "(isKeyComplete entity k \<longrightarrow>
      allocateIds entity this k n callback w =
        (Threw (Error ''An incomplete key should be provided.''), w)) \<and>
   (\<not> isKeyComplete entity k \<longrightarrow>
      map (\<lambda>x. (action x, body x)) (dispatched (snd (allocateIds entity this k n callback w))) =
      map (\<lambda>x. (action x, body x)) (dispatched w) @
        [(''allocateIds'',
          empty_body\<lparr>body_key := Some (replicate (nat n) (keyToKeyProto entity k))\<rparr>)]) \<and>
   (\<not> isKeyComplete entity k \<and> answers w = Inr resp # rest \<longrightarrow>
      fst (allocateIds entity this k n callback w) =
        invoke callback
          (None, Some (map (keyFromKeyProto entity)
                         (case resp_key resp of Some ks \<Rightarrow> ks | None \<Rightarrow> []))) \<and>
      answers (snd (allocateIds entity this k n callback w)) = rest) \<and>
   (\<not> isKeyComplete entity k \<and> answers w = Inl err # rest \<longrightarrow>
      fst (allocateIds entity this k n callback w) = invoke callback (Some err, None))"
proof -
  have 1: "allocateIds entity this k n callback w =
      (Threw (Error ''An incomplete key should be provided.''), w)"
    if "isKeyComplete entity k"
    using that by (simp add: allocateIds_def)
  have s: "snd (allocateIds entity this k n callback w) =
      snd (makeReq this ''allocateIds''
        (empty_body\<lparr>body_key := Some (replicate (nat n) (keyToKeyProto entity k))\<rparr>) w)"
    if "\<not> isKeyComplete entity k"
    using that by (simp add: allocateIds_def push_copies_replicate Let_def
        split: prod.splits option.splits sum.splits)
  have 2: "map (\<lambda>x. (action x, body x))
        (dispatched (snd (allocateIds entity this k n callback w))) =
      map (\<lambda>x. (action x, body x)) (dispatched w) @
        [(''allocateIds'',
          empty_body\<lparr>body_key := Some (replicate (nat n) (keyToKeyProto entity k))\<rparr>)]"
    if "\<not> isKeyComplete entity k"
    by (simp only: s [OF that] makeReq_dispatched frame_body_allocateIds)
  have 3: "fst (allocateIds entity this k n callback w) =
        invoke callback
          (None, Some (map (keyFromKeyProto entity)
                         (case resp_key resp of Some ks \<Rightarrow> ks | None \<Rightarrow> []))) \<and>
      answers (snd (allocateIds entity this k n callback w)) = rest"
    if "\<not> isKeyComplete entity k \<and> answers w = Inr resp # rest"
    using that by (simp add: allocateIds_def makeReq_def makeAuthorizedRequest_def Let_def)
  have 4: "fst (allocateIds entity this k n callback w) = invoke callback (Some err, None)"
    if "\<not> isKeyComplete entity k \<and> answers w = Inl err # rest"
    using that by (simp add: allocateIds_def makeReq_def makeAuthorizedRequest_def Let_def)
  from 1 2 3 4 show ?thesis by blast
qed

theorem allocateIds_complete_or_dispatch_witness:
  "isKeyComplete codec company123 \<and>
   allocateIds codec dataset company123 2 (UserFn 1)
       (answering [Inr (allocate_answer [company7, company123])]) =
     (Threw (Error ''An incomplete key should be provided.''),
      answering [Inr (allocate_answer [company7, company123])]) \<and>
   \<not> isKeyComplete codec company \<and>
   map (\<lambda>x. (action x, body x)) (dispatched (snd (allocateIds codec dataset company 2 (UserFn 1)
       (answering [Inr (allocate_answer [company7, company123])])))) =
     [(''allocateIds'', empty_body\<lparr>body_key := Some [KeyProto company, KeyProto company]\<rparr>)] \<and>
   fst (allocateIds codec dataset company 2 (UserFn 1)
       (answering [Inr (allocate_answer [company7, company123])])) =
     Invoked (UserFn 1) (None, Some [company7, company123]) \<and>
   fst (allocateIds codec dataset company 2 (UserFn 1) (answering [Inl (Error ''down'')])) =
     Invoked (UserFn 1) (Some (Error ''down''), None)"
proof -
  let ?w = "answering [Inr (allocate_answer [company7, company123])] :: (wire, wire allocate_ids_response) world"
  let ?e = "answering [Inl (Error ''down'')] :: (wire, wire allocate_ids_response) world"
  have c: "isKeyComplete codec company123" and i: "\<not> isKeyComplete codec company"
    by (simp_all add: codec_def final_segment_has_id_def company123_def company_def)
  have n: "replicate (nat 2) x = [x, x]" for x :: wire
    by (simp add: numeral_2_eq_2)
  have k: "keyToKeyProto codec = KeyProto"
    and f: "keyFromKeyProto codec (KeyProto x) = x" for x
    by (simp_all add: codec_def)
  have aw: "answers ?w = Inr (allocate_answer [company7, company123]) # []"
    and ae: "answers ?e = Inl (Error ''down'') # []"
    and dw: "dispatched ?w = []"
    by (simp_all add: answering_def)
  note t1 = allocateIds_complete_or_dispatch [where entity = codec and k = company123
      and this = dataset and n = 2 and callback = "UserFn 1" and w = ?w]
  note t2 = allocateIds_complete_or_dispatch [where entity = codec and k = company
      and this = dataset and n = 2 and callback = "UserFn 1" and w = ?w
      and resp = "allocate_answer [company7, company123]" and rest = "[]"]
  note t3 = allocateIds_complete_or_dispatch [where entity = codec and k = company
      and this = dataset and n = 2 and callback = "UserFn 1" and w = ?e
      and err = "Error ''down''" and rest = "[]"]
  have 1: "allocateIds codec dataset company123 2 (UserFn 1) ?w =
      (Threw (Error ''An incomplete key should be provided.''), ?w)"
    using t1 c by blast
  have 2: "map (\<lambda>x. (action x, body x)) (dispatched (snd (allocateIds codec dataset company 2
      (UserFn 1) ?w))) =
      [(''allocateIds'', empty_body\<lparr>body_key := Some [KeyProto company, KeyProto company]\<rparr>)]"
    using t2 i by (simp only: n k dw list.map append_Nil simp_thms)
  have 3: "fst (allocateIds codec dataset company 2 (UserFn 1) ?w) =
      Invoked (UserFn 1) (None, Some [company7, company123])"
    using t2 i aw by (simp add: allocate_answer_def f invoke_def)
  have 4: "fst (allocateIds codec dataset company 2 (UserFn 1) ?e) =
      Invoked (UserFn 1) (Some (Error ''down''), None)"
    using t3 i ae by (simp add: invoke_def)
  from c i 1 2 3 4 show ?thesis by (intro conjI)
qed

subsection \<open>save: what the reduction builds\<close>

lemma map_records_keyObjects:
  "keyObjects (map_records entity as h) = keyObjects h"
  by (induction as arbitrary: h) simp_all

lemma map_records_append:
  "map_records entity (as @ bs) h = map_records entity bs (map_records entity as h)"
  by (induction as arbitrary: h) simp_all

lemma map_records_untouched:
  "a \<notin> set as \<Longrightarrow> dataRecords (map_records entity as h) a = dataRecords h a"
  by (induction as arbitrary: h) simp_all

lemma map_records_name:
  "name (dataRecords (map_records entity as h) a) = name (dataRecords h a)"
  by (induction as arbitrary: h) (simp_all add: encode_record_def Let_def split: option.splits)

lemma map_records_once:
  "count_list as a = 1 \<Longrightarrow>
   dataRecords (map_records entity as h) a = encode_record entity (dataRecords h a)"
proof (induction as arbitrary: h)
  case Nil
  then show ?case by simp
next
  case (Cons x xs)
  show ?case
  proof (cases "x = a")
    case True
    with Cons.prems have "a \<notin> set xs" by (simp add: count_list_0_iff)
    with True show ?thesis by (simp add: map_records_untouched)
  next
    case False
    with Cons show ?thesis by simp
  qed
qed

text \<open>
  The records listed by a descriptor, and the reduction over descriptors written as one
  pass over all listed records.
\<close>

lemma reduce_step_heap:
  "snd (snd (reduce_step entity (acc, idx, h) e i)) =
   map_records entity (case data e of PropertyList as \<Rightarrow> as | PropertyBag d \<Rightarrow> []) h"
  by (simp add: reduce_step_def Let_def split: entity_data.splits)

lemma reduce_entities_heap:
  "snd (snd (reduce_entities entity es i (acc, idx, h))) =
   map_records entity
     (concat (map (\<lambda>e. case data e of PropertyList as \<Rightarrow> as | PropertyBag d \<Rightarrow> []) es)) h"
proof (induction es arbitrary: i acc idx h)
  case Nil
  then show ?case by simp
next
  case (Cons e es)
  obtain acc1 idx1 h1 where s: "reduce_step entity (acc, idx, h) e i = (acc1, idx1, h1)"
    by (cases "reduce_step entity (acc, idx, h) e i") auto
  with reduce_step_heap [of entity acc idx h e i]
  have "h1 = map_records entity (case data e of PropertyList as \<Rightarrow> as | PropertyBag d \<Rightarrow> []) h"
    by simp
  with s Cons.IH [of "Suc i" acc1 idx1 h1] show ?case
    by (simp add: map_records_append)
qed

lemma reduce_entities_keyObjects:
  "keyObjects (snd (snd (reduce_entities entity es i (acc, idx, h)))) = keyObjects h"
  by (simp add: reduce_entities_heap map_records_keyObjects)

lemma filter_positions:
  "map fst (filter (\<lambda>(j, e). P e) (zip [i..<i + length es] es)) =
   filter (\<lambda>j. P (es ! (j - i))) [i..<i + length es]"
proof (induction es arbitrary: i)
  case Nil
  then show ?case by simp
next
  case (Cons e es)
  have u: "[i..<i + length (e # es)] = i # [Suc i..<Suc i + length es]"
    by (subst upt_rec) simp
  have c: "filter (\<lambda>j. P ((e # es) ! (j - i))) [Suc i..<Suc i + length es] =
      filter (\<lambda>j. P (es ! (j - Suc i))) [Suc i..<Suc i + length es]"
  proof (rule filter_cong [OF refl])
    fix j assume "j \<in> set [Suc i..<Suc i + length es]"
    then have "j - i = Suc (j - Suc i)" by auto
    then show "P ((e # es) ! (j - i)) = P (es ! (j - Suc i))" by simp
  qed
  show ?case
    unfolding u using Cons.IH [of "Suc i"] c by simp
qed

text \<open>
  The reduction classifies by the completeness of the key and records the positions
  of the incomplete keys, in order.
\<close>

lemma reduce_entities_classifies:
  "reduce_entities entity es i (acc, idx, h) = (acc1, idx1, h1) \<Longrightarrow>
   upsert acc1 = upsert acc @
     map (\<lambda>e. \<lparr>ent_body = (case data e of PropertyList as \<Rightarrow> Property as
                           | PropertyBag d \<Rightarrow> EntityProto (entityToEntityProto entity d)),
               ent_key = keyToKeyProto entity (keyObjects h (key e))\<rparr>)
       (filter (\<lambda>e. isKeyComplete entity (keyObjects h (key e))) es) \<and>
   insert_auto_id acc1 = insert_auto_id acc @
     map (\<lambda>e. \<lparr>ent_body = (case data e of PropertyList as \<Rightarrow> Property as
                           | PropertyBag d \<Rightarrow> EntityProto (entityToEntityProto entity d)),
               ent_key = keyToKeyProto entity (keyObjects h (key e))\<rparr>)
       (filter (\<lambda>e. \<not> isKeyComplete entity (keyObjects h (key e))) es) \<and>
   delete_keys acc1 = delete_keys acc \<and>
   idx1 = idx @ map fst (filter (\<lambda>(j, e). \<not> isKeyComplete entity (keyObjects h (key e)))
                          (zip [i..<i + length es] es))"
proof (induction es arbitrary: i acc idx h)
  case Nil
  then show ?case by simp
next
  case (Cons e es)
  obtain acc2 idx2 h2 where s: "reduce_step entity (acc, idx, h) e i = (acc2, idx2, h2)"
    by (cases "reduce_step entity (acc, idx, h) e i") auto
  with reduce_step_heap [of entity acc idx h e i]
  have k: "keyObjects h2 = keyObjects h"
    by (simp add: map_records_keyObjects)
  have u: "[i..<i + length (e # es)] = i # [Suc i..<Suc i + length es]"
    by (subst upt_rec) simp
  from Cons.prems s have r: "reduce_entities entity es (Suc i) (acc2, idx2, h2) = (acc1, idx1, h1)"
    by simp
  note ih = Cons.IH [OF r, unfolded k]
  show ?case
  proof (cases "isKeyComplete entity (keyObjects h (key e))")
    case True
    with s have "upsert acc2 = upsert acc @
        [\<lparr>ent_body = (case data e of PropertyList as \<Rightarrow> Property as
                           | PropertyBag d \<Rightarrow> EntityProto (entityToEntityProto entity d)),
          ent_key = keyToKeyProto entity (keyObjects h (key e))\<rparr>]"
      and "insert_auto_id acc2 = insert_auto_id acc" and "delete_keys acc2 = delete_keys acc"
      and "idx2 = idx"
      by (auto simp: reduce_step_def Let_def map_records_keyObjects split: entity_data.splits)
    with ih True show ?thesis unfolding u by simp
  next
    case False
    with s have "upsert acc2 = upsert acc"
      and "insert_auto_id acc2 = insert_auto_id acc @
        [\<lparr>ent_body = (case data e of PropertyList as \<Rightarrow> Property as
                           | PropertyBag d \<Rightarrow> EntityProto (entityToEntityProto entity d)),
          ent_key = keyToKeyProto entity (keyObjects h (key e))\<rparr>]"
      and "delete_keys acc2 = delete_keys acc"
      and "idx2 = idx @ [i]"
      by (auto simp: reduce_step_def Let_def map_records_keyObjects split: entity_data.splits)
    with ih False show ?thesis unfolding u by simp
  qed
qed

subsection \<open>save: what the continuation writes\<close>

lemma assign_paths_dataRecords:
  "dataRecords (snd (assign_paths entity es idx ks n h)) = dataRecords h"
  by (induction ks arbitrary: n h) (simp_all add: Let_def)

lemma assign_paths_namespace:
  "namespace (keyObjects (snd (assign_paths entity es idx ks n h)) a) = namespace (keyObjects h a)"
  by (induction ks arbitrary: n h) (simp_all add: Let_def)

lemma assign_paths_untouched:
  "(\<And>j. n \<le> j \<Longrightarrow> j < n + length ks \<Longrightarrow> j < length idx \<Longrightarrow> idx ! j < length es \<Longrightarrow>
        key (es ! (idx ! j)) \<noteq> a) \<Longrightarrow>
   keyObjects (snd (assign_paths entity es idx ks n h)) a = keyObjects h a"
proof (induction ks arbitrary: n h)
  case Nil
  then show ?case by simp
next
  case (Cons k ks)
  show ?case
  proof (cases "n < length idx \<and> idx ! n < length es")
    case False
    then show ?thesis by (auto simp: Let_def)
  next
    case True
    let ?h1 = "h\<lparr>keyObjects := (keyObjects h)
        (key (es ! (idx ! n)) := (keyObjects h (key (es ! (idx ! n))))
           \<lparr>path := path (keyFromKeyProto entity k)\<rparr>)\<rparr>"
    from True Cons.prems [of n] have ne: "key (es ! (idx ! n)) \<noteq> a" by simp
    have "keyObjects (snd (assign_paths entity es idx ks (Suc n) ?h1)) a = keyObjects ?h1 a"
      by (rule Cons.IH) (use Cons.prems in auto)
    with True ne show ?thesis by (simp add: Let_def)
  qed
qed

lemma assign_paths_assigned:
  "i < length ks \<Longrightarrow> n + i < length idx \<Longrightarrow>
   (\<And>j. j < length idx \<Longrightarrow> idx ! j < length es) \<Longrightarrow>
   (\<And>j. n + i < j \<Longrightarrow> j < n + length ks \<Longrightarrow> j < length idx \<Longrightarrow>
        key (es ! (idx ! j)) \<noteq> key (es ! (idx ! (n + i)))) \<Longrightarrow>
   path (keyObjects (snd (assign_paths entity es idx ks n h)) (key (es ! (idx ! (n + i))))) =
   path (keyFromKeyProto entity (ks ! i))"
proof (induction ks arbitrary: n i h)
  case Nil
  then show ?case by simp
next
  case (Cons k ks)
  let ?h1 = "h\<lparr>keyObjects := (keyObjects h)
      (key (es ! (idx ! n)) := (keyObjects h (key (es ! (idx ! n))))
         \<lparr>path := path (keyFromKeyProto entity k)\<rparr>)\<rparr>"
  from Cons.prems(2) have n: "n < length idx" by simp
  with Cons.prems(3) have r: "idx ! n < length es" by simp
  from n r have step: "assign_paths entity es idx (k # ks) n h =
      assign_paths entity es idx ks (Suc n) ?h1"
    by (simp add: Let_def)
  show ?case
  proof (cases i)
    case 0
    have "keyObjects (snd (assign_paths entity es idx ks (Suc n) ?h1)) (key (es ! (idx ! n))) =
        keyObjects ?h1 (key (es ! (idx ! n)))"
      by (rule assign_paths_untouched) (use Cons.prems(4) 0 in auto)
    with step 0 show ?thesis by simp
  next
    case (Suc i')
    have "path (keyObjects (snd (assign_paths entity es idx ks (Suc n) ?h1))
          (key (es ! (idx ! (Suc n + i'))))) = path (keyFromKeyProto entity (ks ! i'))"
      by (rule Cons.IH) (use Cons.prems Suc in auto)
    with step Suc show ?thesis by simp
  qed
qed

lemma onCommit_heap:
  "snd (onCommit entity callback es idx None (Some r) h) =
   snd (assign_paths entity es idx
          (case mutation_result r of
             None \<Rightarrow> []
           | Some result \<Rightarrow> (case insert_auto_id_key result of Some ks \<Rightarrow> ks | None \<Rightarrow> [])) 0 h)"
  by (simp add: onCommit_def Let_def split: prod.splits option.splits)

lemma onCommit_failed:
  "err \<noteq> None \<or> resp = None \<Longrightarrow>
   onCommit entity callback es idx err resp h = (invoke callback err, h)"
  by (auto simp: onCommit_def split: option.splits)

text \<open>The positions recorded by the reduction are positions of the input array.\<close>

lemma positions_in_range:
  "j < length [i \<leftarrow> [0..<length es]. P (es ! i)] \<Longrightarrow>
   [i \<leftarrow> [0..<length es]. P (es ! i)] ! j < length es \<and>
   P (es ! ([i \<leftarrow> [0..<length es]. P (es ! i)] ! j))"
  using nth_mem [of j "[i \<leftarrow> [0..<length es]. P (es ! i)]"] by simp

lemma reduce_entities_from_empty:
  "\<exists>h1. reduce_entities entity es 0 (\<lparr>upsert = [], insert_auto_id = [], delete_keys = []\<rparr>, [], h) =
     (\<lparr>upsert =
         map (\<lambda>e. \<lparr>ent_body = (case data e of PropertyList as \<Rightarrow> Property as
                               | PropertyBag d \<Rightarrow> EntityProto (entityToEntityProto entity d)),
                   ent_key = keyToKeyProto entity (keyObjects h (key e))\<rparr>)
           (filter (\<lambda>e. isKeyComplete entity (keyObjects h (key e))) es),
       insert_auto_id =
         map (\<lambda>e. \<lparr>ent_body = (case data e of PropertyList as \<Rightarrow> Property as
                               | PropertyBag d \<Rightarrow> EntityProto (entityToEntityProto entity d)),
                   ent_key = keyToKeyProto entity (keyObjects h (key e))\<rparr>)
           (filter (\<lambda>e. \<not> isKeyComplete entity (keyObjects h (key e))) es),
       delete_keys = []\<rparr>,
      [i \<leftarrow> [0..<length es]. \<not> isKeyComplete entity (keyObjects h (key (es ! i)))],
      h1) \<and>
     keyObjects h1 = keyObjects h \<and>
     h1 = map_records entity
       (concat (map (\<lambda>e. case data e of PropertyList as \<Rightarrow> as | PropertyBag d \<Rightarrow> []) es)) h"
proof -
  obtain acc1 idx1 h1 where
    r: "reduce_entities entity es 0 (\<lparr>upsert = [], insert_auto_id = [], delete_keys = []\<rparr>, [], h) =
      (acc1, idx1, h1)"
    by (cases "reduce_entities entity es 0
        (\<lparr>upsert = [], insert_auto_id = [], delete_keys = []\<rparr>, [], h)") auto
  from reduce_entities_classifies [OF r]
    filter_positions [of "\<lambda>e. \<not> isKeyComplete entity (keyObjects h (key e))" 0 es]
  have "acc1 = \<lparr>upsert =
         map (\<lambda>e. \<lparr>ent_body = (case data e of PropertyList as \<Rightarrow> Property as
                               | PropertyBag d \<Rightarrow> EntityProto (entityToEntityProto entity d)),
                   ent_key = keyToKeyProto entity (keyObjects h (key e))\<rparr>)
           (filter (\<lambda>e. isKeyComplete entity (keyObjects h (key e))) es),
       insert_auto_id =
         map (\<lambda>e. \<lparr>ent_body = (case data e of PropertyList as \<Rightarrow> Property as
                               | PropertyBag d \<Rightarrow> EntityProto (entityToEntityProto entity d)),
                   ent_key = keyToKeyProto entity (keyObjects h (key e))\<rparr>)
           (filter (\<lambda>e. \<not> isKeyComplete entity (keyObjects h (key e))) es),
       delete_keys = []\<rparr>"
    and "idx1 = [i \<leftarrow> [0..<length es]. \<not> isKeyComplete entity (keyObjects h (key (es ! i)))]"
    by simp_all
  moreover from reduce_entities_heap [of entity es 0
      "\<lparr>upsert = [], insert_auto_id = [], delete_keys = []\<rparr>" "[]" h] r
  have "h1 = map_records entity
       (concat (map (\<lambda>e. case data e of PropertyList as \<Rightarrow> as | PropertyBag d \<Rightarrow> []) es)) h"
    by simp
  ultimately show ?thesis using r by (simp add: map_records_keyObjects)
qed

lemma save_heap_committed:
  assumes "tid this = None" and "answers w = Inr resp # rest"
  shows "fst (snd (snd (save entity this entities callback h w))) =
     snd (assign_paths entity (toArray entities)
       [i \<leftarrow> [0..<length (toArray entities)].
          \<not> isKeyComplete entity (keyObjects h (key (toArray entities ! i)))]
       (case mutation_result resp of
             None \<Rightarrow> []
           | Some result \<Rightarrow> (case insert_auto_id_key result of Some ks \<Rightarrow> ks | None \<Rightarrow> [])) 0
       (map_records entity
         (concat (map (\<lambda>e. case data e of PropertyList as \<Rightarrow> as | PropertyBag d \<Rightarrow> [])
            (toArray entities))) h))"
proof -
  from reduce_entities_from_empty [of entity "toArray entities" h] obtain h1 acc1 idx1
    where r: "reduce_entities entity (toArray entities) 0
        (\<lparr>upsert = [], insert_auto_id = [], delete_keys = []\<rparr>, [], h) = (acc1, idx1, h1)"
      and i: "idx1 = [i \<leftarrow> [0..<length (toArray entities)].
          \<not> isKeyComplete entity (keyObjects h (key (toArray entities ! i)))]"
      and h: "h1 = map_records entity
         (concat (map (\<lambda>e. case data e of PropertyList as \<Rightarrow> as | PropertyBag d \<Rightarrow> [])
            (toArray entities))) h"
    by blast
  have "fst (snd (snd (save entity this entities callback h w))) =
      snd (onCommit entity callback (toArray entities) idx1 None (Some resp) h1)"
    using assms r
    by (simp add: save_def makeReq_def makeAuthorizedRequest_def Let_def split: prod.splits)
  then show ?thesis
    by (simp only: onCommit_heap i h)
qed

lemma save_heap_uncommitted:
  assumes "tid this \<noteq> None \<or> answers w = [] \<or> (\<exists>e rest. answers w = Inl e # rest)"
  shows "fst (snd (snd (save entity this entities callback h w))) =
     map_records entity
       (concat (map (\<lambda>e. case data e of PropertyList as \<Rightarrow> as | PropertyBag d \<Rightarrow> [])
          (toArray entities))) h"
proof -
  from reduce_entities_from_empty [of entity "toArray entities" h] obtain h1 acc1 idx1
    where r: "reduce_entities entity (toArray entities) 0
        (\<lparr>upsert = [], insert_auto_id = [], delete_keys = []\<rparr>, [], h) = (acc1, idx1, h1)"
      and h: "h1 = map_records entity
         (concat (map (\<lambda>e. case data e of PropertyList as \<Rightarrow> as | PropertyBag d \<Rightarrow> [])
            (toArray entities))) h"
    by blast
  have "fst (snd (snd (save entity this entities callback h w))) = h1"
    using assms r
    by (auto simp: save_def makeReq_def makeAuthorizedRequest_def Let_def onCommit_failed
        split: prod.splits)
  with h show ?thesis by simp
qed

lemma save_completion_failed:
  assumes "tid this = None" and "answers w = Inl e # rest"
  shows "fst (save entity this entities callback h w) = invoke callback (Some e)"
  using assms
  by (simp add: save_def makeReq_def makeAuthorizedRequest_def Let_def onCommit_failed
      split: prod.splits)

text \<open>
  C6. When the commit completes with an error, or with neither error nor response, the
  continuation passes the error (or nothing) to the callback and leaves the heap as it
  was. A \<open>save\<close> that dispatches and is answered by an error passes that error to the
  callback, and every key object is as it was before the call.
\<close>

theorem save_failure_surfaces:
  "(err \<noteq> None \<or> resp = None \<longrightarrow>
      onCommit entity callback es idx err resp g = (invoke callback err, g)) \<and>
   (tid this = None \<and> answers w = Inl e # rest \<longrightarrow>
      fst (save entity this entities callback h w) = invoke callback (Some e) \<and>
      keyObjects (fst (snd (snd (save entity this entities callback h w)))) = keyObjects h)"
proof -
  have "keyObjects (fst (snd (snd (save entity this entities callback h w)))) = keyObjects h"
    if "answers w = Inl e # rest"
    using save_heap_uncommitted [of this w entity entities callback h] that
    by (simp add: map_records_keyObjects)
  then show ?thesis
    by (simp add: onCommit_failed save_completion_failed)
qed

theorem save_failure_surfaces_witness:
  "onCommit codec (UserFn (1::nat)) [entA] [0] (Some (Error ''down'')) None heap0 =
     (Invoked (UserFn 1) (Some (Error ''down'')), heap0) \<and>
   onCommit codec (UserFn (1::nat)) [entA] [0] None None heap0 = (Invoked (UserFn 1) None, heap0) \<and>
   tid dataset = None \<and>
   fst (save codec dataset (Many [entA, entB, entC]) (UserFn 1) heap0
          (answering [Inl (Error ''down'')])) = Invoked (UserFn 1) (Some (Error ''down'')) \<and>
   keyObjects (fst (snd (snd (save codec dataset (Many [entA, entB, entC]) (UserFn 1) heap0
          (answering [Inl (Error ''down'')]))))) = keyObjects heap0"
proof -
  have d: "tid dataset = None" by (simp add: dataset_def)
  have a: "answers (answering [Inl (Error ''down'')] :: (wire, wire commit_response) world) =
      Inl (Error ''down'') # []"
    by (simp add: answering_def)
  note t1 = save_failure_surfaces [where err = "Some (Error ''down'')" and resp = None
      and entity = codec and callback = "UserFn (1::nat)" and es = "[entA]" and idx = "[0]"
      and g = heap0 and this = dataset and w = "answering [Inl (Error ''down'')]"
      and e = "Error ''down''" and rest = "[]" and entities = "Many [entA, entB, entC]"
      and h = heap0]
  note t2 = save_failure_surfaces [where err = None and resp = None
      and entity = codec and callback = "UserFn (1::nat)" and es = "[entA]" and idx = "[0]"
      and g = heap0 and this = dataset and w = "answering [Inl (Error ''down'')]"
      and e = "Error ''down''" and rest = "[]" and entities = "Many [entA, entB, entC]"
      and h = heap0]
  from t1 t2 d a show ?thesis by (simp add: invoke_def)
qed

subsection \<open>save: classification and reconciliation\<close>

text \<open>
  C1. Let \<open>es\<close> be the descriptors given to \<open>save\<close>. The mutation it builds has, in the
  \<^verbatim>\<open>upsert\<close> batch, the descriptors whose key is complete and, in the
  \<^verbatim>\<open>insert_auto_id\<close> batch, those whose key is incomplete, each in input order; the
  recorded indexes \<open>idx\<close> are the positions of the incomplete keys, in increasing
  order. This mutation is what is queued (together with the continuation over \<open>es\<close> and
  \<open>idx\<close>) or dispatched. After a commit response carrying the generated keys \<open>gen\<close>,
  the key object of the descriptor at position \<open>idx ! i\<close> has the path of the \<open>i\<close>-th
  generated key, unless a later generated key was assigned to the same key object; and
  the key objects of the descriptors with a complete key are as before the call.
\<close>

theorem save_classifies_and_reconciles:
  assumes "es = toArray entities"
    and "idx = [i \<leftarrow> [0..<length es]. \<not> isKeyComplete entity (keyObjects h (key (es ! i)))]"
    and "m = \<lparr>upsert =
         map (\<lambda>e. \<lparr>ent_body = (case data e of PropertyList as \<Rightarrow> Property as
                               | PropertyBag d \<Rightarrow> EntityProto (entityToEntityProto entity d)),
                   ent_key = keyToKeyProto entity (keyObjects h (key e))\<rparr>)
           [e \<leftarrow> es. isKeyComplete entity (keyObjects h (key e))],
       insert_auto_id =
         map (\<lambda>e. \<lparr>ent_body = (case data e of PropertyList as \<Rightarrow> Property as
                               | PropertyBag d \<Rightarrow> EntityProto (entityToEntityProto entity d)),
                   ent_key = keyToKeyProto entity (keyObjects h (key e))\<rparr>)
           [e \<leftarrow> es. \<not> isKeyComplete entity (keyObjects h (key e))],
       delete_keys = []\<rparr>"
    and "h' = fst (snd (snd (save entity this entities callback h w)))"
  shows "(tid this \<noteq> None \<longrightarrow>
           requests (fst (snd (save entity this entities callback h w))) =
             requests this @ [empty_body\<lparr>mutation := Some m\<rparr>] \<and>
           requestCallbacks (fst (snd (save entity this entities callback h w))) =
             requestCallbacks this @ [OnCommit callback es idx]) \<and>
         (tid this = None \<longrightarrow>
           map (\<lambda>x. (action x, mutation (body x)))
             (dispatched (snd (snd (snd (save entity this entities callback h w))))) =
           map (\<lambda>x. (action x, mutation (body x))) (dispatched w) @ [(''commit'', Some m)]) \<and>
         (tid this = None \<and> answers w = Inr resp # rest \<and>
          mutation_result resp = Some result \<and> insert_auto_id_key result = Some gen \<longrightarrow>
           (\<forall>i. i < length gen \<and> i < length idx \<and>
                (\<forall>j. i < j \<and> j < length gen \<and> j < length idx \<longrightarrow>
                     key (es ! (idx ! j)) \<noteq> key (es ! (idx ! i))) \<longrightarrow>
                path (keyObjects h' (key (es ! (idx ! i)))) = path (keyFromKeyProto entity (gen ! i))) \<and>
           (\<forall>e \<in> set es. isKeyComplete entity (keyObjects h (key e)) \<longrightarrow>
                keyObjects h' (key e) = keyObjects h (key e)))"
proof -
  let ?init = "(\<lparr>upsert = [], insert_auto_id = [], delete_keys = []\<rparr>, [], h)"
  from reduce_entities_from_empty [of entity es h] assms(2,3)
  obtain h1 where r: "reduce_entities entity es 0 ?init = (m, idx, h1)"
    and k: "keyObjects h1 = keyObjects h"
    and h1: "h1 = map_records entity
         (concat (map (\<lambda>e. case data e of PropertyList as \<Rightarrow> as | PropertyBag d \<Rightarrow> []) es)) h"
    by auto
  have range: "idx ! j < length es" if "j < length idx" for j
    using positions_in_range [where j = j and es = es
        and P = "\<lambda>e. \<not> isKeyComplete entity (keyObjects h (key e))"] that
    by (simp add: assms(2))
  have incomplete: "\<not> isKeyComplete entity (keyObjects h (key (es ! (idx ! j))))"
    if "j < length idx" for j
    using positions_in_range [where j = j and es = es
        and P = "\<lambda>e. \<not> isKeyComplete entity (keyObjects h (key e))"] that
    by (simp add: assms(2))
  have queued: "requests (fst (snd (save entity this entities callback h w))) =
             requests this @ [empty_body\<lparr>mutation := Some m\<rparr>] \<and>
           requestCallbacks (fst (snd (save entity this entities callback h w))) =
             requestCallbacks this @ [OnCommit callback es idx]"
    if "tid this \<noteq> None"
    using that r by (simp add: save_def Let_def assms(1) [symmetric])
  have sent: "map (\<lambda>x. (action x, mutation (body x)))
             (dispatched (snd (snd (snd (save entity this entities callback h w))))) =
           map (\<lambda>x. (action x, mutation (body x))) (dispatched w) @ [(''commit'', Some m)]"
    if u: "tid this = None"
  proof -
    have "map (\<lambda>x. (action x, mutation (body x))) xs =
        map (\<lambda>p. (fst p, mutation (snd p))) (map (\<lambda>x. (action x, body x)) xs)"
      for xs :: "'b request list"
      by simp
    then show ?thesis
      using r
      by (simp add: save_unbound_world [OF u] makeReq_dispatched frame_body_commit_unbound [OF u]
          assms(1) [symmetric] del: map_map)
  qed
  have committed: "(\<forall>i. i < length gen \<and> i < length idx \<and>
                (\<forall>j. i < j \<and> j < length gen \<and> j < length idx \<longrightarrow>
                     key (es ! (idx ! j)) \<noteq> key (es ! (idx ! i))) \<longrightarrow>
                path (keyObjects h' (key (es ! (idx ! i)))) = path (keyFromKeyProto entity (gen ! i))) \<and>
           (\<forall>e \<in> set es. isKeyComplete entity (keyObjects h (key e)) \<longrightarrow>
                keyObjects h' (key e) = keyObjects h (key e))"
    if c: "tid this = None \<and> answers w = Inr resp # rest \<and>
          mutation_result resp = Some result \<and> insert_auto_id_key result = Some gen"
  proof -
    from c save_heap_committed [of this w resp rest entity entities callback h]
    have h': "h' = snd (assign_paths entity es idx gen 0 h1)"
      by (simp add: assms(1,2,4) h1)
    have a: "path (keyObjects h' (key (es ! (idx ! i)))) = path (keyFromKeyProto entity (gen ! i))"
      if "i < length gen" and "i < length idx"
        and "\<forall>j. i < j \<and> j < length gen \<and> j < length idx \<longrightarrow>
                     key (es ! (idx ! j)) \<noteq> key (es ! (idx ! i))"
      for i
      using assign_paths_assigned [of i gen 0 idx es entity h1] that range
      by (simp add: h')
    have b: "keyObjects h' (key e) = keyObjects h (key e)"
      if "e \<in> set es" and "isKeyComplete entity (keyObjects h (key e))" for e
    proof -
      have "keyObjects (snd (assign_paths entity es idx gen 0 h1)) (key e) = keyObjects h1 (key e)"
      proof (rule assign_paths_untouched)
        fix j assume "j < length idx"
        with incomplete [of j] that(2) show "key (es ! (idx ! j)) \<noteq> key e"
          by auto
      qed
      then show ?thesis by (simp add: h' k)
    qed
    from a b show ?thesis by blast
  qed
  from queued sent committed show ?thesis by blast
qed

theorem save_classifies_and_reconciles_witness:
  "requestCallbacks (fst (snd (save codec txn (Many [entA, entB, entC]) (UserFn 1) heap0
       (answering [])))) = [OnCommit (UserFn 1) [entA, entB, entC] [0, 2]] \<and>
   map (\<lambda>x. (action x, mutation (body x))) (dispatched (snd (snd (snd
       (save codec dataset (Many [entA, entB, entC]) (UserFn 1) heap0
          (answering [Inr (commit_answer [company7, product8])])))))) =
     [(''commit'', Some
        \<lparr>upsert = [\<lparr>ent_body = EntityProto (EntityMsg ''B''), ent_key = KeyProto company123\<rparr>],
         insert_auto_id =
           [\<lparr>ent_body = EntityProto (EntityMsg ''A''), ent_key = KeyProto company\<rparr>,
            \<lparr>ent_body = EntityProto (EntityMsg ''C''), ent_key = KeyProto product\<rparr>],
         delete_keys = []\<rparr>)] \<and>
   path (keyObjects (fst (snd (snd (save codec dataset (Many [entA, entB, entC]) (UserFn 1) heap0
          (answering [Inr (commit_answer [company7, product8])]))))) 0) = path company7 \<and>
   keyObjects (fst (snd (snd (save codec dataset (Many [entA, entB, entC]) (UserFn 1) heap0
          (answering [Inr (commit_answer [company7, product8])]))))) 1 = company123 \<and>
   path (keyObjects (fst (snd (snd (save codec dataset (Many [entA, entB, entC]) (UserFn 1) heap0
          (answering [Inr (commit_answer [company7, product8])]))))) 2) = path product8"
proof -
  let ?es = "[entA, entB, entC]"
  let ?gen = "[KeyProto company7, KeyProto product8]"
  let ?w = "answering [Inr (commit_answer [company7, product8])] :: (wire, wire commit_response) world"
  let ?h' = "fst (snd (snd (save codec dataset (Many ?es) (UserFn 1) heap0 ?w)))"
  let ?m = "\<lparr>upsert = [\<lparr>ent_body = EntityProto (EntityMsg ''B''), ent_key = KeyProto company123\<rparr>],
         insert_auto_id =
           [\<lparr>ent_body = EntityProto (EntityMsg ''A''), ent_key = KeyProto company\<rparr>,
            \<lparr>ent_body = EntityProto (EntityMsg ''C''), ent_key = KeyProto product\<rparr>],
         delete_keys = []\<rparr>"
  have es: "?es = toArray (Many ?es)"
    by (simp add: toArray_def)
  have cA: "\<not> isKeyComplete codec (keyObjects heap0 (key entA))"
    and cB: "isKeyComplete codec (keyObjects heap0 (key entB))"
    and cC: "\<not> isKeyComplete codec (keyObjects heap0 (key entC))"
    by (simp_all add: codec_def heap0_def entA_def entB_def entC_def final_segment_has_id_def
        company_def company123_def product_def)
  have idx: "[0, 2] = [i \<leftarrow> [0..<length ?es]. \<not> isKeyComplete codec (keyObjects heap0 (key (?es ! i)))]"
    using cA cB cC by (simp add: numeral_2_eq_2)
  have m: "?m = \<lparr>upsert =
         map (\<lambda>e. \<lparr>ent_body = (case data e of PropertyList as \<Rightarrow> Property as
                               | PropertyBag d \<Rightarrow> EntityProto (entityToEntityProto codec d)),
                   ent_key = keyToKeyProto codec (keyObjects heap0 (key e))\<rparr>)
           [e \<leftarrow> ?es. isKeyComplete codec (keyObjects heap0 (key e))],
       insert_auto_id =
         map (\<lambda>e. \<lparr>ent_body = (case data e of PropertyList as \<Rightarrow> Property as
                               | PropertyBag d \<Rightarrow> EntityProto (entityToEntityProto codec d)),
                   ent_key = keyToKeyProto codec (keyObjects heap0 (key e))\<rparr>)
           [e \<leftarrow> ?es. \<not> isKeyComplete codec (keyObjects heap0 (key e))],
       delete_keys = []\<rparr>"
    using cA cB cC
    by (simp add: codec_def heap0_def entA_def entB_def entC_def)
  note q = save_classifies_and_reconciles [OF es idx m refl, where this = txn
      and callback = "UserFn 1" and w = "answering []"]
  note t = save_classifies_and_reconciles [OF es idx m refl, where this = dataset
      and callback = "UserFn 1" and w = ?w and resp = "commit_answer [company7, product8]"
      and rest = "[]" and gen = ?gen and result = "\<lparr>insert_auto_id_key = Some ?gen\<rparr>"]
  have "tid txn \<noteq> None" by (simp add: txn_def)
  with q have 1: "requestCallbacks (fst (snd (save codec txn (Many ?es) (UserFn 1) heap0
       (answering [])))) = [OnCommit (UserFn 1) ?es [0, 2]]"
    by (simp add: txn_def)
  have d: "tid dataset = None" by (simp add: dataset_def)
  with t have 2: "map (\<lambda>x. (action x, mutation (body x))) (dispatched (snd (snd (snd
       (save codec dataset (Many ?es) (UserFn 1) heap0 ?w))))) = [(''commit'', Some ?m)]"
    by (simp add: answering_def)
  have "tid dataset = None \<and> answers ?w = Inr (commit_answer [company7, product8]) # [] \<and>
      mutation_result (commit_answer [company7, product8]) = Some \<lparr>insert_auto_id_key = Some ?gen\<rparr> \<and>
      insert_auto_id_key \<lparr>insert_auto_id_key = Some ?gen\<rparr> = Some ?gen"
    by (simp add: d answering_def commit_answer_def)
  with t have a: "\<forall>i. i < length ?gen \<and> i < length [0, 2 :: nat] \<and>
                (\<forall>j. i < j \<and> j < length ?gen \<and> j < length [0, 2 :: nat] \<longrightarrow>
                     key (?es ! ([0, 2] ! j)) \<noteq> key (?es ! ([0, 2] ! i))) \<longrightarrow>
                path (keyObjects ?h' (key (?es ! ([0, 2] ! i)))) =
                path (keyFromKeyProto codec (?gen ! i))"
    and b: "\<forall>e \<in> set ?es. isKeyComplete codec (keyObjects heap0 (key e)) \<longrightarrow>
                keyObjects ?h' (key e) = keyObjects heap0 (key e)"
    by blast+
  have later: "j = 1" if "0 < j" and "j < length ?gen" for j :: nat
    using that by simp
  have "path (keyObjects ?h' (key (?es ! ([0, 2] ! 0)))) = path (keyFromKeyProto codec (?gen ! 0))"
    using a [rule_format, of 0] later by (auto simp: entA_def entC_def)
  then have 3: "path (keyObjects ?h' 0) = path company7"
    by (simp add: entA_def codec_def)
  have "path (keyObjects ?h' (key (?es ! ([0, 2] ! 1)))) = path (keyFromKeyProto codec (?gen ! 1))"
    using a [rule_format, of 1] by simp
  then have 4: "path (keyObjects ?h' 2) = path product8"
    by (simp add: entC_def codec_def)
  from b cB have "keyObjects ?h' (key entB) = keyObjects heap0 (key entB)"
    by simp
  then have 5: "keyObjects ?h' 1 = company123"
    by (simp add: entB_def heap0_def)
  from 1 2 3 4 5 show ?thesis by (intro conjI)
qed

subsection \<open>save: what it writes to the caller's objects\<close>

lemma save_heap_cases:
  "\<exists>ks. fst (snd (snd (save entity this entities callback h w))) =
     snd (assign_paths entity (toArray entities)
       [i \<leftarrow> [0..<length (toArray entities)].
          \<not> isKeyComplete entity (keyObjects h (key (toArray entities ! i)))]
       ks 0
       (map_records entity
         (concat (map (\<lambda>e. case data e of PropertyList as \<Rightarrow> as | PropertyBag d \<Rightarrow> [])
            (toArray entities))) h)) \<and>
     (\<not> (tid this = None \<and> (\<exists>resp rest. answers w = Inr resp # rest)) \<longrightarrow> ks = [])"
proof (cases "tid this = None \<and> (\<exists>resp rest. answers w = Inr resp # rest)")
  case True
  then obtain resp rest where "tid this = None" and "answers w = Inr resp # rest" by blast
  from save_heap_committed [OF this] True show ?thesis by blast
next
  case False
  have "tid this \<noteq> None \<or> answers w = [] \<or> (\<exists>e rest. answers w = Inl e # rest)"
  proof (cases "answers w")
    case Nil
    then show ?thesis by simp
  next
    case (Cons a as)
    with False show ?thesis by (cases a) auto
  qed
  from save_heap_uncommitted [OF this, of entity entities callback h] False show ?thesis
    by (intro exI [of _ "[]"]) simp
qed

text \<open>
  C8, as the code has it. \<open>save\<close> writes to two kinds of caller-owned objects. It
  writes the path of key objects of descriptors with an incomplete key, and only after
  a commit response. And it writes to every data record listed in an explicit property
  list: a record listed once has its value replaced by the wire property and its
  \<^verbatim>\<open>excludeFromIndexes\<close> field, when boolean, removed (\<open>encode_record\<close>). Everything
  else is as before the call: the namespace of every key, every other key object,
  every data record that is not listed, and the name of every data record.
\<close>

theorem save_frame:
  assumes "es = toArray entities"
    and "listed = concat (map (\<lambda>e. case data e of PropertyList as \<Rightarrow> as | PropertyBag d \<Rightarrow> []) es)"
    and "h' = fst (snd (snd (save entity this entities callback h w)))"
  shows "(\<forall>a. namespace (keyObjects h' a) = namespace (keyObjects h a)) \<and>
         (\<forall>a. a \<notin> key ` {e \<in> set es. \<not> isKeyComplete entity (keyObjects h (key e))} \<longrightarrow>
              keyObjects h' a = keyObjects h a) \<and>
         (\<not> (tid this = None \<and> (\<exists>resp rest. answers w = Inr resp # rest)) \<longrightarrow>
              keyObjects h' = keyObjects h) \<and>
         (\<forall>a. a \<notin> set listed \<longrightarrow> dataRecords h' a = dataRecords h a) \<and>
         (\<forall>a. name (dataRecords h' a) = name (dataRecords h a)) \<and>
         (\<forall>a. count_list listed a = 1 \<longrightarrow>
              dataRecords h' a = encode_record entity (dataRecords h a))"
proof -
  let ?idx = "[i \<leftarrow> [0..<length es]. \<not> isKeyComplete entity (keyObjects h (key (es ! i)))]"
  from save_heap_cases [of entity this entities callback h w] assms
  obtain ks where h': "h' = snd (assign_paths entity es ?idx ks 0 (map_records entity listed h))"
    and u: "\<not> (tid this = None \<and> (\<exists>resp rest. answers w = Inr resp # rest)) \<longrightarrow> ks = []"
    by auto
  have 1: "namespace (keyObjects h' a) = namespace (keyObjects h a)" for a
    by (simp add: h' assign_paths_namespace map_records_keyObjects)
  have 2: "keyObjects h' a = keyObjects h a"
    if "a \<notin> key ` {e \<in> set es. \<not> isKeyComplete entity (keyObjects h (key e))}" for a
  proof -
    have "keyObjects (snd (assign_paths entity es ?idx ks 0 (map_records entity listed h))) a =
        keyObjects (map_records entity listed h) a"
    proof (rule assign_paths_untouched)
      fix j assume "j < length ?idx"
      from positions_in_range [where j = j and es = es
          and P = "\<lambda>e. \<not> isKeyComplete entity (keyObjects h (key e))", OF this]
      have "es ! (?idx ! j) \<in> {e \<in> set es. \<not> isKeyComplete entity (keyObjects h (key e))}"
        by simp
      with that show "key (es ! (?idx ! j)) \<noteq> a" by blast
    qed
    then show ?thesis by (simp add: h' map_records_keyObjects)
  qed
  have 3: "keyObjects h' = keyObjects h"
    if "\<not> (tid this = None \<and> (\<exists>resp rest. answers w = Inr resp # rest))"
    using that u by (simp add: h' map_records_keyObjects)
  have 4: "dataRecords h' a = dataRecords h a" if "a \<notin> set listed" for a
    using that by (simp add: h' assign_paths_dataRecords map_records_untouched)
  have 5: "name (dataRecords h' a) = name (dataRecords h a)" for a
    by (simp add: h' assign_paths_dataRecords map_records_name)
  have 6: "dataRecords h' a = encode_record entity (dataRecords h a)"
    if "count_list listed a = 1" for a
    using that by (simp add: h' assign_paths_dataRecords map_records_once)
  from 1 2 3 4 5 6 show ?thesis by blast
qed

theorem save_frame_witness:
  "namespace (keyObjects (fst (snd (snd (save codec dataset (Many [entA, entL]) (UserFn 1) heap0
      (answering [Inr (commit_answer [company7])]))))) 0) = None \<and>
   keyObjects (fst (snd (snd (save codec dataset (Many [entA, entL]) (UserFn 1) heap0
      (answering [Inr (commit_answer [company7])]))))) 1 = company123 \<and>
   keyObjects (fst (snd (snd (save codec txn (Many [entA, entL]) (UserFn 1) heap0
      (answering []))))) = keyObjects heap0 \<and>
   dataRecords (fst (snd (snd (save codec dataset (Many [entA, entL]) (UserFn 1) heap0
      (answering [Inr (commit_answer [company7])]))))) 1 = dataRecords heap0 1 \<and>
   name (dataRecords (fst (snd (snd (save codec dataset (Many [entA, entL]) (UserFn 1) heap0
      (answering [Inr (commit_answer [company7])]))))) 0) = ''rating'' \<and>
   dataRecords (fst (snd (snd (save codec dataset (Many [entA, entL]) (UserFn 1) heap0
      (answering [Inr (commit_answer [company7])]))))) 0 =
     \<lparr>name = ''rating'', val = Wire \<lparr>payload = ValueMsg ''10'', indexed = Some True\<rparr>,
      excludeFromIndexes = None\<rparr>"
proof -
  let ?es = "[entA, entL]"
  let ?w = "answering [Inr (commit_answer [company7])] :: (wire, wire commit_response) world"
  let ?h' = "fst (snd (snd (save codec dataset (Many ?es) (UserFn 1) heap0 ?w)))"
  let ?g' = "fst (snd (snd (save codec txn (Many ?es) (UserFn 1) heap0 (answering []))))"
  have es: "?es = toArray (Many ?es)"
    by (simp add: toArray_def)
  have listed: "[0] = concat (map (\<lambda>e. case data e of PropertyList as \<Rightarrow> as | PropertyBag d \<Rightarrow> []) ?es)"
    by (simp add: entA_def entL_def)
  note t = save_frame [OF es listed refl, where entity = codec and this = dataset
      and callback = "UserFn 1" and h = heap0 and w = ?w]
  note q = save_frame [OF es listed refl, where entity = codec and this = txn
      and callback = "UserFn 1" and h = heap0 and w = "answering []"]
  have cL: "isKeyComplete codec (keyObjects heap0 (key entL))"
    by (simp add: codec_def heap0_def entL_def final_segment_has_id_def company123_def)
  have kA: "key entA = 0"
    by (simp add: entA_def)
  from cL have inc: "1 \<notin> key ` {e \<in> set ?es. \<not> isKeyComplete codec (keyObjects heap0 (key e))}"
    by (auto simp: kA)
  from t have "namespace (keyObjects ?h' 0) = namespace (keyObjects heap0 0)" by blast
  then have 1: "namespace (keyObjects ?h' 0) = None"
    by (simp add: heap0_def company_def)
  from t inc have "keyObjects ?h' 1 = keyObjects heap0 1" by blast
  then have 2: "keyObjects ?h' 1 = company123" by (simp add: heap0_def)
  have "\<not> (tid txn = None \<and> (\<exists>resp rest. answers (answering [] :: (wire, wire commit_response) world)
       = Inr resp # rest))"
    by (simp add: txn_def)
  with q have 3: "keyObjects ?g' = keyObjects heap0" by blast
  have "(1::nat) \<notin> set [0]" by simp
  with t have 4: "dataRecords ?h' 1 = dataRecords heap0 1" by blast
  from t have "name (dataRecords ?h' 0) = name (dataRecords heap0 0)" by blast
  then have 5: "name (dataRecords ?h' 0) = ''rating''"
    by (simp add: heap0_def)
  have "count_list [0 :: nat] 0 = 1" by simp
  with t have "dataRecords ?h' 0 = encode_record codec (dataRecords heap0 0)" by blast
  then have 6: "dataRecords ?h' 0 =
     \<lparr>name = ''rating'', val = Wire \<lparr>payload = ValueMsg ''10'', indexed = Some True\<rparr>,
      excludeFromIndexes = None\<rparr>"
    by (simp add: encode_record_def heap0_def codec_def)
  from 1 2 3 4 5 6 show ?thesis by (intro conjI)
qed

text \<open>
  C8 as stated fails: saving one descriptor whose data is the property list of the
  documentation's example changes the caller's data record, also when nothing is
  answered.
\<close>

theorem save_changes_data_record:
  "dataRecords heap0 0 =
     \<lparr>name = ''rating'', val = Domain ''10'', excludeFromIndexes = Some False\<rparr> \<and>
   dataRecords (fst (snd (snd (save codec dataset (One entL) (UserFn 1) heap0 (answering [])))))
      0 =
     \<lparr>name = ''rating'', val = Wire \<lparr>payload = ValueMsg ''10'', indexed = Some True\<rparr>,
      excludeFromIndexes = None\<rparr> \<and>
   dataRecords (fst (snd (snd (save codec dataset (One entL) (UserFn 1) heap0 (answering [])))))
      0 \<noteq> dataRecords heap0 0"
  by (simp add: save_def toArray_def reduce_step_def encode_record_def makeReq_def
      makeAuthorizedRequest_def Let_def dataset_def answering_def heap0_def entL_def codec_def
      final_segment_has_id_def company123_def)

subsection \<open>Omitted callbacks\<close>

lemma orNoop_idem:
  "orNoop (orNoop f) = orNoop f"
  by (cases f) (simp_all add: orNoop_def)

lemma get_orNoop:
  "get entity this keys callback w = get entity this keys (orNoop callback) w"
  by (simp add: get.simps [of entity this keys callback w]
      get.simps [of entity this keys "orNoop callback" w] orNoop_idem)

lemma delete_orNoop:
  "delete entity this keys callback w = delete entity this keys (orNoop callback) w"
  by (simp add: delete_def orNoop_idem)

lemma delete_never_throws:
  "fst (delete entity this keys callback w) \<noteq> Threw e"
  by (simp add: delete_def Let_def invoke_orNoop split: prod.splits option.splits sum.splits)

lemma get_never_throws:
  "fst (get entity this keys callback w) \<noteq> Threw e"
  using get_completion_cases [of entity this keys callback w] by auto

lemma assign_paths_completion:
  "fst (assign_paths entity es idx ks n h) =
   (if \<forall>j < length ks. n + j < length idx \<and> idx ! (n + j) < length es then None
    else Some TypeError)"
proof (induction ks arbitrary: n h)
  case Nil
  then show ?case by simp
next
  case (Cons k ks)
  have "(\<forall>j < length (k # ks). n + j < length idx \<and> idx ! (n + j) < length es) =
      ((n < length idx \<and> idx ! n < length es) \<and>
       (\<forall>j < length ks. Suc n + j < length idx \<and> idx ! (Suc n + j) < length es))"
    by (auto simp: less_Suc_eq_0_disj)
  with Cons.IH show ?case by (simp add: Let_def)
qed

text \<open>
  How the continuation completes on a response: without a mutation result it throws;
  with one, it calls the callback it was given exactly when every generated key finds
  a recorded index and a descriptor at that index, and throws otherwise.
\<close>

lemma onCommit_completion:
  "fst (onCommit entity callback es idx None (Some r) h) =
   (case mutation_result r of
      None \<Rightarrow> Threw TypeError
    | Some result \<Rightarrow>
        if \<forall>j < length (case insert_auto_id_key result of Some ks \<Rightarrow> ks | None \<Rightarrow> []).
             j < length idx \<and> idx ! j < length es
        then invoke callback None else Threw TypeError)"
proof (cases "mutation_result r")
  case None
  then show ?thesis by (simp add: onCommit_def)
next
  case (Some result)
  let ?ks = "case insert_auto_id_key result of Some ks \<Rightarrow> ks | None \<Rightarrow> []"
  define ok where "ok \<longleftrightarrow> (\<forall>j < length ?ks. j < length idx \<and> idx ! j < length es)"
  obtain e h1 where a: "assign_paths entity es idx ?ks 0 h = (e, h1)"
    by (cases "assign_paths entity es idx ?ks 0 h") auto
  with assign_paths_completion [of entity es idx ?ks 0 h]
  have "e = (if ok then None else Some TypeError)"
    by (simp add: ok_def)
  with Some a
  have "fst (onCommit entity callback es idx None (Some r) h) =
      (if ok then invoke callback None else Threw TypeError)"
    by (cases ok) (simp_all add: onCommit_def Let_def)
  then show ?thesis
    by (simp add: Some ok_def)
qed

lemma save_completion_answered:
  assumes "tid this = None" and "answers w = Inr r # rest"
  shows "fst (save entity this entities callback h w) =
     fst (onCommit entity callback (toArray entities)
       [i \<leftarrow> [0..<length (toArray entities)].
          \<not> isKeyComplete entity (keyObjects h (key (toArray entities ! i)))]
       None (Some r)
       (map_records entity
         (concat (map (\<lambda>e. case data e of PropertyList as \<Rightarrow> as | PropertyBag d \<Rightarrow> [])
            (toArray entities))) h))"
proof -
  from reduce_entities_from_empty [of entity "toArray entities" h] obtain h1 acc1 idx1
    where "reduce_entities entity (toArray entities) 0
        (\<lparr>upsert = [], insert_auto_id = [], delete_keys = []\<rparr>, [], h) = (acc1, idx1, h1)"
      and "idx1 = [i \<leftarrow> [0..<length (toArray entities)].
          \<not> isKeyComplete entity (keyObjects h (key (toArray entities ! i)))]"
      and "h1 = map_records entity
         (concat (map (\<lambda>e. case data e of PropertyList as \<Rightarrow> as | PropertyBag d \<Rightarrow> [])
            (toArray entities))) h"
    by blast
  with assms show ?thesis
    by (simp add: save_def makeReq_def makeAuthorizedRequest_def Let_def split: prod.splits)
qed

text \<open>
  C10 as stated fails: a \<open>save\<close> of one descriptor with a complete key, answered by a
  response that carries a generated key, throws a TypeError in its continuation and
  never invokes the callback it was given.
\<close>

theorem save_surplus_key_not_called:
  "fst (save codec dataset (One entB) (UserFn 1) heap0
         (answering [Inr (commit_answer [company7])])) = Threw TypeError"
  by (simp add: save_def toArray_def reduce_step_def onCommit_def makeReq_def
      makeAuthorizedRequest_def Let_def dataset_def answering_def heap0_def entB_def codec_def
      final_segment_has_id_def company123_def commit_answer_def)

text \<open>
  C10, as the code has it. \<open>get\<close> and \<open>delete\<close> called without a callback behave as
  if called with \<^verbatim>\<open>util.noop\<close>, and no completion of theirs throws. \<open>save\<close> substitutes
  nothing: its continuation calls the callback as it was given, which is a TypeError
  for an omitted one. It does so with the error when the commit failed or delivered no
  response, and with no error when the response has a mutation result with at most as
  many generated keys as indexes were recorded (\<open>idx\<close>, one per incomplete key). On a
  response without a mutation result, or with more generated keys than that, the
  continuation throws a TypeError and the callback is not called.
\<close>

theorem callbacks_noop_or_given:
  assumes "es = toArray entities"
    and "idx = [i \<leftarrow> [0..<length es]. \<not> isKeyComplete entity (keyObjects h (key (es ! i)))]"
  shows "get entity this keys Undefined w = get entity this keys UtilNoop w \<and>
   (\<forall>e. fst (get entity this keys Undefined w) \<noteq> Threw e) \<and>
   delete entity this keys Undefined w2 = delete entity this keys UtilNoop w2 \<and>
   (\<forall>e. fst (delete entity this keys Undefined w2) \<noteq> Threw e) \<and>
   (\<forall>a. invoke (Undefined :: 'f fn) (a :: js_error option) = Threw TypeError) \<and>
   (\<forall>f a. invoke (UserFn f :: 'f fn) (a :: js_error option) = Invoked (UserFn f) a) \<and>
   (err \<noteq> None \<or> resp = None \<longrightarrow>
      fst (onCommit entity callback es0 idx0 err resp g) = invoke callback err) \<and>
   (tid this = None \<and> answers w3 = Inl e3 # rest \<longrightarrow>
      fst (save entity this entities callback h w3) = invoke callback (Some e3)) \<and>
   (tid this = None \<and> answers w3 = Inr r # rest \<and> mutation_result r = Some result \<and>
    length (case insert_auto_id_key result of Some ks \<Rightarrow> ks | None \<Rightarrow> []) \<le> length idx \<longrightarrow>
      fst (save entity this entities callback h w3) = invoke callback None) \<and>
   (tid this = None \<and> answers w3 = Inr r # rest \<and>
    (mutation_result r = None \<or>
     (\<exists>result. mutation_result r = Some result \<and>
        length idx < length (case insert_auto_id_key result of Some ks \<Rightarrow> ks | None \<Rightarrow> []))) \<longrightarrow>
      fst (save entity this entities callback h w3) = Threw TypeError)"
proof -
  have 1: "get entity this keys Undefined w = get entity this keys UtilNoop w"
    using get_orNoop [of entity this keys Undefined w] by (simp add: orNoop_def)
  have 2: "delete entity this keys Undefined w2 = delete entity this keys UtilNoop w2"
    using delete_orNoop [of entity this keys Undefined w2] by (simp add: orNoop_def)
  have 3: "fst (onCommit entity callback es0 idx0 err resp g) = invoke callback err"
    if "err \<noteq> None \<or> resp = None"
    using that by (simp add: onCommit_failed)
  have 4: "fst (save entity this entities callback h w3) = invoke callback (Some e3)"
    if "tid this = None \<and> answers w3 = Inl e3 # rest"
    using that by (simp add: save_completion_failed)
  have range: "idx ! j < length es" if "j < length idx" for j
    using positions_in_range [where j = j and es = es
        and P = "\<lambda>e. \<not> isKeyComplete entity (keyObjects h (key e))"] that
    by (simp add: assms(2))
  have answered: "fst (save entity this entities callback h w3) =
      (case mutation_result r of
         None \<Rightarrow> Threw TypeError
       | Some result \<Rightarrow>
           if length (case insert_auto_id_key result of Some ks \<Rightarrow> ks | None \<Rightarrow> []) \<le> length idx
           then invoke callback None else Threw TypeError)"
    if a: "tid this = None" "answers w3 = Inr r # rest"
  proof -
    have "(\<forall>j < n. j < length idx \<and> idx ! j < length es) = (n \<le> length idx)" for n
      using range by (auto simp: not_le [symmetric] dest: spec [of _ "length idx"])
    then show ?thesis
      by (simp add: save_completion_answered [OF a] onCommit_completion assms [symmetric]
          split: option.splits)
  qed
  have 5: "fst (save entity this entities callback h w3) = invoke callback None"
    if "tid this = None \<and> answers w3 = Inr r # rest \<and> mutation_result r = Some result \<and>
      length (case insert_auto_id_key result of Some ks \<Rightarrow> ks | None \<Rightarrow> []) \<le> length idx"
    using that answered by simp
  have 6: "fst (save entity this entities callback h w3) = Threw TypeError"
    if "tid this = None \<and> answers w3 = Inr r # rest \<and>
      (mutation_result r = None \<or>
       (\<exists>result. mutation_result r = Some result \<and>
          length idx < length (case insert_auto_id_key result of Some ks \<Rightarrow> ks | None \<Rightarrow> [])))"
    using that answered by auto
  have 7: "invoke (Undefined :: 'f fn) (a :: js_error option) = Threw TypeError"
    and 8: "invoke (UserFn f :: 'f fn) a = Invoked (UserFn f) a" for a f
    by (simp_all add: invoke_def)
  from 1 2 3 4 5 6 7 8 get_never_throws delete_never_throws show ?thesis by blast
qed

theorem callbacks_noop_or_given_witness:
  "fst (get codec dataset (One company123) Undefined (answering [Inl (Error ''down'')])) =
     Invoked UtilNoop (Some (Error ''down''), Nil) \<and>
   fst (delete codec dataset (One company123) Undefined (answering [Inl (Error ''down'')])) =
     Invoked UtilNoop (Some (Error ''down''), None) \<and>
   fst (onCommit codec (UserFn (1::nat)) [entA] [0] None None heap0) = Invoked (UserFn 1) None \<and>
   fst (save codec dataset (Many [entA, entB]) Undefined heap0 (answering [Inl (Error ''down'')])) =
     Threw TypeError \<and>
   fst (save codec dataset (Many [entA, entB]) (UserFn 1) heap0
          (answering [Inl (Error ''down'')])) = Invoked (UserFn 1) (Some (Error ''down'')) \<and>
   fst (save codec dataset (Many [entA, entB]) (UserFn 1) heap0
          (answering [Inr (commit_answer [company7])])) = Invoked (UserFn 1) None \<and>
   fst (save codec dataset (Many [entA, entB]) (UserFn 1) heap0
          (answering [Inr (commit_answer [company7, product8])])) = Threw TypeError \<and>
   fst (save codec dataset (Many [entA, entB]) (UserFn 1) heap0
          (answering [Inr \<lparr>mutation_result = None\<rparr>])) = Threw TypeError"
proof -
  let ?es = "[entA, entB]"
  let ?e = "answering [Inl (Error ''down'')]"
  let ?one = "answering [Inr (commit_answer [company7])] :: (wire, wire commit_response) world"
  let ?two = "answering [Inr (commit_answer [company7, product8])] :: (wire, wire commit_response) world"
  let ?none = "answering [Inr \<lparr>mutation_result = None\<rparr>] :: (wire, wire commit_response) world"
  have es: "?es = toArray (Many ?es)"
    by (simp add: toArray_def)
  have idx: "[0] = [i \<leftarrow> [0..<length ?es]. \<not> isKeyComplete codec (keyObjects heap0 (key (?es ! i)))]"
    by (simp add: codec_def heap0_def entA_def entB_def final_segment_has_id_def
        company_def company123_def)
  have d: "tid dataset = None" by (simp add: dataset_def)
  note t = callbacks_noop_or_given [OF es idx, where this = dataset and callback = "UserFn 1"]
  note u = callbacks_noop_or_given [OF es idx, where this = dataset and callback = Undefined]
  have g: "fst (get codec dataset (One company123) UtilNoop ?e) =
      Invoked UtilNoop (Some (Error ''down''), Nil)"
    by (simp add: get.simps makeReq_def makeAuthorizedRequest_def answering_def Let_def
        orNoop_def invoke_def)
  have dl: "fst (delete codec dataset (One company123) UtilNoop ?e) =
      Invoked UtilNoop (Some (Error ''down''), None)"
    by (simp add: delete_def makeReq_def makeAuthorizedRequest_def answering_def Let_def
        orNoop_def invoke_def dataset_def)
  from t [where keys = "One company123" and w = ?e]
  have "get codec dataset (One company123) Undefined ?e =
      get codec dataset (One company123) UtilNoop ?e"
    by blast
  with g have 1: "fst (get codec dataset (One company123) Undefined ?e) =
      Invoked UtilNoop (Some (Error ''down''), Nil)"
    by simp
  from t [where keys = "One company123" and ?w2.0 = ?e]
  have "delete codec dataset (One company123) Undefined ?e =
      delete codec dataset (One company123) UtilNoop ?e"
    by blast
  with dl have 2: "fst (delete codec dataset (One company123) Undefined ?e) =
      Invoked UtilNoop (Some (Error ''down''), None)"
    by simp
  from t [where err = None and resp = None and ?es0.0 = "[entA]" and ?idx0.0 = "[0]" and g = heap0]
  have "fst (onCommit codec (UserFn (1::nat)) [entA] [0] None None heap0) =
      invoke (UserFn 1) None"
    by blast
  then have 3: "fst (onCommit codec (UserFn (1::nat)) [entA] [0] None None heap0) =
      Invoked (UserFn 1) None"
    by (simp add: invoke_def)
  have ae: "tid dataset = None \<and>
      answers (?e :: (wire, wire commit_response) world) = Inl (Error ''down'') # []"
    by (simp add: d answering_def)
  from u [where ?w3.0 = ?e and ?e3.0 = "Error ''down''" and rest = "[]"] ae
  have "fst (save codec dataset (Many ?es) Undefined heap0 ?e) =
      invoke Undefined (Some (Error ''down''))"
    by blast
  then have 4: "fst (save codec dataset (Many ?es) Undefined heap0 ?e) = Threw TypeError"
    by (simp add: invoke_def)
  from t [where ?w3.0 = ?e and ?e3.0 = "Error ''down''" and rest = "[]"] ae
  have "fst (save codec dataset (Many ?es) (UserFn 1) heap0 ?e) =
      invoke (UserFn 1) (Some (Error ''down''))"
    by blast
  then have 5: "fst (save codec dataset (Many ?es) (UserFn 1) heap0 ?e) =
      Invoked (UserFn 1) (Some (Error ''down''))"
    by (simp add: invoke_def)
  have a1: "tid dataset = None \<and> answers ?one = Inr (commit_answer [company7]) # [] \<and>
      mutation_result (commit_answer [company7]) =
        Some \<lparr>insert_auto_id_key = Some [KeyProto company7]\<rparr> \<and>
      length (case insert_auto_id_key \<lparr>insert_auto_id_key = Some [KeyProto company7]\<rparr> of
                Some ks \<Rightarrow> ks | None \<Rightarrow> []) \<le> length [0 :: nat]"
    by (simp add: d answering_def commit_answer_def)
  from t [where ?w3.0 = ?one and r = "commit_answer [company7]" and rest = "[]"
      and result = "\<lparr>insert_auto_id_key = Some [KeyProto company7]\<rparr>"] a1
  have "fst (save codec dataset (Many ?es) (UserFn 1) heap0 ?one) = invoke (UserFn 1) None"
    by blast
  then have 6: "fst (save codec dataset (Many ?es) (UserFn 1) heap0 ?one) = Invoked (UserFn 1) None"
    by (simp add: invoke_def)
  have a2: "tid dataset = None \<and> answers ?two = Inr (commit_answer [company7, product8]) # [] \<and>
      (mutation_result (commit_answer [company7, product8]) = None \<or>
       (\<exists>result. mutation_result (commit_answer [company7, product8]) = Some result \<and>
          length [0 :: nat] < length (case insert_auto_id_key result of
                Some ks \<Rightarrow> ks | None \<Rightarrow> [])))"
    by (simp add: d answering_def commit_answer_def)
  from t [where ?w3.0 = ?two and r = "commit_answer [company7, product8]" and rest = "[]"] a2
  have 7: "fst (save codec dataset (Many ?es) (UserFn 1) heap0 ?two) = Threw TypeError"
    by blast
  have a3: "tid dataset = None \<and> answers ?none = Inr \<lparr>mutation_result = None\<rparr> # [] \<and>
      (mutation_result (\<lparr>mutation_result = None\<rparr> :: wire commit_response) = None \<or>
       (\<exists>result. mutation_result (\<lparr>mutation_result = None\<rparr> :: wire commit_response) = Some result \<and>
          length [0 :: nat] < length (case insert_auto_id_key result of
                Some ks \<Rightarrow> ks | None \<Rightarrow> [])))"
    by (simp add: d answering_def)
  from t [where ?w3.0 = ?none and r = "\<lparr>mutation_result = None\<rparr>" and rest = "[]"] a3
  have 8: "fst (save codec dataset (Many ?es) (UserFn 1) heap0 ?none) = Threw TypeError"
    by blast
  from 1 2 3 4 5 6 7 8 show ?thesis by (intro conjI)
qed

subsection \<open>runQuery: the stream and the limit\<close>

lemma push_results_spec:
  "push_results es n s =
     (if 0 \<le> n \<and> n \<le> int (length es) then 0 else n - int (length es),
      s\<lparr>pushed := pushed s @ (if 0 \<le> n then take (nat n) es else es)\<rparr>)"
proof (induction es arbitrary: n s)
  case Nil
  then show ?case by simp
next
  case (Cons e es)
  show ?case
  proof (cases "n = 0")
    case True
    then show ?thesis by simp
  next
    case False
    then have "0 \<le> n \<Longrightarrow> nat n = Suc (nat (n - 1))" by simp
    with False Cons.IH [of "n - 1" "stream_push e s"] show ?thesis
      by (auto simp: stream_push_def)
  qed
qed

lemma makeReq_Cons_length:
  "answers w = a # as \<Longrightarrow>
   \<exists>w1. makeReq this ''runQuery'' b w = (Some a, w1) \<and> answers w1 = as \<and>
        length (dispatched w1) = Suc (length (dispatched w)) \<and>
        map (\<lambda>x. (action x, body x)) (dispatched w1) =
          map (\<lambda>x. (action x, body x)) (dispatched w) @ [(''runQuery'', b)]"
  by (simp add: makeReq_def makeAuthorizedRequest_def frame_body_def Let_def)

lemma runQuery_inner_ends:
  assumes "makeReq this ''runQuery'' (req st) w = (Some (Inr resp), w1)"
    and "stream st = Some s" and "ends_stream entity resp"
  shows "runQuery_inner entity this q callback st w =
         (Pending, st\<lparr>stream := Some (stream_end s)\<rparr>, w1)"
  using assms
  by (subst runQuery_inner.simps)
     (auto simp: Let_def ends_stream_def page_cursor_def page_entities_def)

lemma runQuery_inner_last:
  assumes "makeReq this ''runQuery'' (req st) w = (Some (Inr resp), w1)"
    and "stream st = Some s" and "\<not> ends_stream entity resp"
    and "push_results (page_entities entity resp) (resultsToSend st) s = (0, s1)"
  shows "runQuery_inner entity this q callback st w =
         (Pending, st\<lparr>resultsToSend := 0, stream := Some (stream_end s1)\<rparr>, w1)"
  using assms
  by (subst runQuery_inner.simps)
     (auto simp: Let_def ends_stream_def page_cursor_def page_entities_def)

lemma runQuery_inner_next:
  assumes "makeReq this ''runQuery'' (req st) w = (Some (Inr resp), w1)"
    and "stream st = Some s" and "\<not> ends_stream entity resp"
    and "push_results (page_entities entity resp) (resultsToSend st) s = (n, s1)" and "n \<noteq> 0"
  shows "runQuery_inner entity this q callback st w =
         runQuery_inner entity this q callback
           (st\<lparr>req := (req st)\<lparr>query :=
                   Some (queryToQueryProto entity (offset 0 (start (page_cursor resp) q)))\<rparr>,
               resultsToSend := n, stream := Some s1\<rparr>) w1"
  using assms
  by (subst runQuery_inner.simps)
     (auto simp: Let_def ends_stream_def page_cursor_def page_entities_def)

text \<open>
  The limit is reached on the last of the pages \<open>qs @ [p]\<close>: the stream gets the first
  \<open>L\<close> of their entities and is ended, and the answers after that page are not asked for.
\<close>

lemma stream_limit_reached:
  assumes "stream st = Some s" and "resultsToSend st = L" and "0 \<le> L"
    and "answers w = map Inr (qs @ [p]) @ rest"
    and "\<forall>x \<in> set (qs @ [p]). \<not> ends_stream entity x"
    and "qs = [] \<or> int (length (concat (map (page_entities entity) qs))) < L"
    and "L \<le> int (length (concat (map (page_entities entity) (qs @ [p]))))"
  shows "\<exists>st1 w1. runQuery_inner entity this q callback st w = (Pending, st1, w1) \<and>
           stream st1 =
             Some (s\<lparr>pushed := pushed s @ take (nat L) (concat (map (page_entities entity) (qs @ [p]))),
                    ended := True\<rparr>) \<and>
           answers w1 = rest \<and>
           length (dispatched w1) = length (dispatched w) + length qs + 1 \<and>
           map (\<lambda>x. (action x, body x)) (dispatched w1) =
             map (\<lambda>x. (action x, body x)) (dispatched w) @
             (''runQuery'', req st) #
             map (\<lambda>x. (''runQuery'',
                    (req st)\<lparr>query := Some (queryToQueryProto entity (offset 0 (start (page_cursor x) q)))\<rparr>)) qs"
  using assms
proof (induction qs arbitrary: st s L w)
  case Nil
  then have a: "answers w = Inr p # rest" by simp
  from makeReq_Cons_length [OF a, of this "req st"]
  obtain w1 where m: "makeReq this ''runQuery'' (req st) w = (Some (Inr p), w1)"
    and r: "answers w1 = rest" and d: "length (dispatched w1) = Suc (length (dispatched w))"
    and b: "map (\<lambda>x. (action x, body x)) (dispatched w1) =
          map (\<lambda>x. (action x, body x)) (dispatched w) @ [(''runQuery'', req st)]"
    by auto
  from Nil.prems have e: "\<not> ends_stream entity p"
    and l: "L \<le> int (length (page_entities entity p))"
    by simp_all
  from Nil.prems(2,3) l
  have "push_results (page_entities entity p) (resultsToSend st) s =
      (0, s\<lparr>pushed := pushed s @ take (nat L) (page_entities entity p)\<rparr>)"
    by (simp add: push_results_spec)
  from runQuery_inner_last [OF m Nil.prems(1) e this, of q callback] r d b show ?case
    by (simp add: stream_end_def)
next
  case (Cons p1 qs)
  then have a: "answers w = Inr p1 # (map Inr (qs @ [p]) @ rest)" by simp
  from makeReq_Cons_length [OF a, of this "req st"]
  obtain w1 where m: "makeReq this ''runQuery'' (req st) w = (Some (Inr p1), w1)"
    and r: "answers w1 = map Inr (qs @ [p]) @ rest"
    and d: "length (dispatched w1) = Suc (length (dispatched w))"
    and b: "map (\<lambda>x. (action x, body x)) (dispatched w1) =
          map (\<lambda>x. (action x, body x)) (dispatched w) @ [(''runQuery'', req st)]"
    by auto
  let ?n = "length (page_entities entity p1)"
  from Cons.prems have e: "\<not> ends_stream entity p1"
    and good: "\<forall>x \<in> set (qs @ [p]). \<not> ends_stream entity x"
    and less: "int ?n + int (length (concat (map (page_entities entity) qs))) < L"
    and le: "L \<le> int ?n + int (length (concat (map (page_entities entity) (qs @ [p]))))"
    by simp_all
  from less have big: "int ?n < L" by linarith
  with Cons.prems(2)
  have push: "push_results (page_entities entity p1) (resultsToSend st) s =
      (L - int ?n, s\<lparr>pushed := pushed s @ page_entities entity p1\<rparr>)"
    by (simp add: push_results_spec)
  let ?st = "st\<lparr>req := (req st)\<lparr>query :=
                   Some (queryToQueryProto entity (offset 0 (start (page_cursor p1) q)))\<rparr>,
               resultsToSend := L - int ?n,
               stream := Some (s\<lparr>pushed := pushed s @ page_entities entity p1\<rparr>)\<rparr>"
  from big have nz: "L - int ?n \<noteq> 0" by simp
  have step: "runQuery_inner entity this q callback st w =
      runQuery_inner entity this q callback ?st w1"
    by (rule runQuery_inner_next [OF m Cons.prems(1) e push nz])
  have "\<exists>st1 w2. runQuery_inner entity this q callback ?st w1 = (Pending, st1, w2) \<and>
           stream st1 =
             Some ((s\<lparr>pushed := pushed s @ page_entities entity p1\<rparr>)
                   \<lparr>pushed := pushed (s\<lparr>pushed := pushed s @ page_entities entity p1\<rparr>) @
                      take (nat (L - int ?n)) (concat (map (page_entities entity) (qs @ [p]))),
                    ended := True\<rparr>) \<and>
           answers w2 = rest \<and>
           length (dispatched w2) = length (dispatched w1) + length qs + 1 \<and>
           map (\<lambda>x. (action x, body x)) (dispatched w2) =
             map (\<lambda>x. (action x, body x)) (dispatched w1) @
             (''runQuery'', req ?st) #
             map (\<lambda>x. (''runQuery'',
                    (req ?st)\<lparr>query := Some (queryToQueryProto entity (offset 0 (start (page_cursor x) q)))\<rparr>)) qs"
  proof (rule Cons.IH)
    show "stream ?st = Some (s\<lparr>pushed := pushed s @ page_entities entity p1\<rparr>)" by simp
    show "resultsToSend ?st = L - int ?n" by simp
    show "0 \<le> L - int ?n" using big by simp
    show "answers w1 = map Inr (qs @ [p]) @ rest" by (rule r)
    show "\<forall>x \<in> set (qs @ [p]). \<not> ends_stream entity x" by (rule good)
    show "qs = [] \<or> int (length (concat (map (page_entities entity) qs))) < L - int ?n"
      using less by simp
    show "L - int ?n \<le> int (length (concat (map (page_entities entity) (qs @ [p]))))"
      using le by simp
  qed
  moreover from big have "nat L = ?n + nat (L - int ?n)" by simp
  ultimately show ?case
    using step d b by auto
qed

text \<open>
  The pages \<open>ps\<close> do not reach the limit (or there is none) and the next answer ends the
  stream: the stream gets all their entities and is ended.
\<close>

lemma stream_supply_exhausted:
  assumes "stream st = Some s" and "resultsToSend st = L"
    and "answers w = map Inr ps @ Inr t # rest"
    and "\<forall>x \<in> set ps. \<not> ends_stream entity x" and "ends_stream entity t"
    and "L < 0 \<or> int (length (concat (map (page_entities entity) ps))) < L"
  shows "\<exists>st1 w1. runQuery_inner entity this q callback st w = (Pending, st1, w1) \<and>
           stream st1 =
             Some (s\<lparr>pushed := pushed s @ concat (map (page_entities entity) ps), ended := True\<rparr>) \<and>
           answers w1 = rest \<and>
           length (dispatched w1) = length (dispatched w) + length ps + 1 \<and>
           map (\<lambda>x. (action x, body x)) (dispatched w1) =
             map (\<lambda>x. (action x, body x)) (dispatched w) @
             (''runQuery'', req st) #
             map (\<lambda>x. (''runQuery'',
                    (req st)\<lparr>query := Some (queryToQueryProto entity (offset 0 (start (page_cursor x) q)))\<rparr>)) ps"
  using assms
proof (induction ps arbitrary: st s L w)
  case Nil
  then have a: "answers w = Inr t # rest" by simp
  from makeReq_Cons_length [OF a, of this "req st"]
  obtain w1 where m: "makeReq this ''runQuery'' (req st) w = (Some (Inr t), w1)"
    and r: "answers w1 = rest" and d: "length (dispatched w1) = Suc (length (dispatched w))"
    and b: "map (\<lambda>x. (action x, body x)) (dispatched w1) =
          map (\<lambda>x. (action x, body x)) (dispatched w) @ [(''runQuery'', req st)]"
    by auto
  from runQuery_inner_ends [OF m Nil.prems(1) Nil.prems(5), of q callback] r d b show ?case
    by (simp add: stream_end_def)
next
  case (Cons p1 ps)
  then have a: "answers w = Inr p1 # (map Inr ps @ Inr t # rest)" by simp
  from makeReq_Cons_length [OF a, of this "req st"]
  obtain w1 where m: "makeReq this ''runQuery'' (req st) w = (Some (Inr p1), w1)"
    and r: "answers w1 = map Inr ps @ Inr t # rest"
    and d: "length (dispatched w1) = Suc (length (dispatched w))"
    and b: "map (\<lambda>x. (action x, body x)) (dispatched w1) =
          map (\<lambda>x. (action x, body x)) (dispatched w) @ [(''runQuery'', req st)]"
    by auto
  let ?n = "length (page_entities entity p1)"
  from Cons.prems have e: "\<not> ends_stream entity p1"
    and good: "\<forall>x \<in> set ps. \<not> ends_stream entity x"
    and less: "L < 0 \<or> int ?n + int (length (concat (map (page_entities entity) ps))) < L"
    by simp_all
  from less have big: "L < 0 \<or> int ?n < L" by linarith
  with Cons.prems(2)
  have push: "push_results (page_entities entity p1) (resultsToSend st) s =
      (L - int ?n, s\<lparr>pushed := pushed s @ page_entities entity p1\<rparr>)"
    by (auto simp: push_results_spec)
  let ?st = "st\<lparr>req := (req st)\<lparr>query :=
                   Some (queryToQueryProto entity (offset 0 (start (page_cursor p1) q)))\<rparr>,
               resultsToSend := L - int ?n,
               stream := Some (s\<lparr>pushed := pushed s @ page_entities entity p1\<rparr>)\<rparr>"
  from big have nz: "L - int ?n \<noteq> 0" by auto
  have step: "runQuery_inner entity this q callback st w =
      runQuery_inner entity this q callback ?st w1"
    by (rule runQuery_inner_next [OF m Cons.prems(1) e push nz])
  have "\<exists>st1 w2. runQuery_inner entity this q callback ?st w1 = (Pending, st1, w2) \<and>
           stream st1 =
             Some ((s\<lparr>pushed := pushed s @ page_entities entity p1\<rparr>)
                   \<lparr>pushed := pushed (s\<lparr>pushed := pushed s @ page_entities entity p1\<rparr>) @
                      concat (map (page_entities entity) ps),
                    ended := True\<rparr>) \<and>
           answers w2 = rest \<and>
           length (dispatched w2) = length (dispatched w1) + length ps + 1 \<and>
           map (\<lambda>x. (action x, body x)) (dispatched w2) =
             map (\<lambda>x. (action x, body x)) (dispatched w1) @
             (''runQuery'', req ?st) #
             map (\<lambda>x. (''runQuery'',
                    (req ?st)\<lparr>query := Some (queryToQueryProto entity (offset 0 (start (page_cursor x) q)))\<rparr>)) ps"
  proof (rule Cons.IH)
    show "stream ?st = Some (s\<lparr>pushed := pushed s @ page_entities entity p1\<rparr>)" by simp
    show "resultsToSend ?st = L - int ?n" by simp
    show "answers w1 = map Inr ps @ Inr t # rest" by (rule r)
    show "\<forall>x \<in> set ps. \<not> ends_stream entity x" by (rule good)
    show "ends_stream entity t" by (rule Cons.prems(5))
    show "L - int ?n < 0 \<or> int (length (concat (map (page_entities entity) ps))) < L - int ?n"
      using less by auto
  qed
  then show ?case
    using step d b by auto
qed

text \<open>
  C3 as stated fails: with limit 5, a first page of two entities with a cursor and
  a second page of one entity without a cursor, the stream gets two entities and is
  ended, while three were answered.
\<close>

theorem runQuery_stream_drops_page_without_cursor:
  "stream (fst (reading codec dataset (limited 5)
       (fst (snd (runQuery codec dataset (limited 5) Undefined
          (answering [Inr (page [''a'', ''b''] ''c1''), Inr (page [''c''] [])]))))
       (answering [Inr (page [''a'', ''b''] ''c1''), Inr (page [''c''] [])]))) =
     Some \<lparr>pushed = [''a'', ''b''], errors = [], ended = True\<rparr> \<and>
   concat (map (page_entities codec) [page [''a'', ''b''] ''c1'', page [''c''] []]) =
     [''a'', ''b'', ''c''] \<and>
   int (length [''a'', ''b'']) \<noteq>
     min 5 (int (length (concat (map (page_entities codec)
       [page [''a'', ''b''] ''c1'', page [''c''] []]))))"
  by (simp add: reading_def runQuery_def is_function_def runQuery_inner.simps makeReq_def
      makeAuthorizedRequest_def frame_body_def Let_def answering_def page_def limited_def
      page_entities_def codec_def dataset_def stream_push_def stream_end_def comp_def)

text \<open>
  C3, as the code has it. In streaming mode nothing is dispatched until the stream is
  read. An answer ends the stream when it has no cursor or no entities, and what such
  an answer holds is not emitted. Let the answers begin with the pages \<open>ps\<close>, none of
  which ends the stream, and let \<open>avail\<close> be the number of their entities. If the
  limit \<open>L\<close> is reached on the last page of \<open>ps\<close> (not before it), the stream gets
  exactly the first \<open>L\<close> entities and is ended, one request was made per page of \<open>ps\<close>,
  and no later answer is asked for, whatever that last page still held. If \<open>ps\<close> holds
  fewer than \<open>L\<close> entities (or \<open>L\<close> is negative, the value of a query without limit)
  and the next answer ends the stream, the stream gets all entities of \<open>ps\<close> and is
  ended. In both cases the number of entities emitted is the minimum of \<open>L\<close> and
  \<open>avail\<close>, the first request carries the query, and each later request carries the
  query restarted at the cursor of the page before it, with offset 0.
\<close>

theorem runQuery_stream_limit:
  assumes "st0 = fst (snd (runQuery entity this q Undefined w))"
    and "L = limitVal q"
    and "\<forall>x \<in> set ps. \<not> ends_stream entity x"
    and "avail = int (length (concat (map (page_entities entity) ps)))"
  shows "snd (snd (runQuery entity this q Undefined w)) = w \<and>
     (0 \<le> L \<and> ps \<noteq> [] \<and> answers w = map Inr ps @ rest \<and> L \<le> avail \<and>
      (butlast ps = [] \<or> int (length (concat (map (page_entities entity) (butlast ps)))) < L) \<longrightarrow>
        (\<exists>st1 w1. reading entity this q st0 w = (st1, w1) \<and>
           stream st1 =
             Some \<lparr>pushed = take (nat L) (concat (map (page_entities entity) ps)), errors = [],
                   ended = True\<rparr> \<and>
           int (length (take (nat L) (concat (map (page_entities entity) ps)))) = min L avail \<and>
           answers w1 = rest \<and>
           length (dispatched w1) = length (dispatched w) + length ps \<and>
           map (\<lambda>x. (action x, query (body x))) (dispatched w1) =
             map (\<lambda>x. (action x, query (body x))) (dispatched w) @
             (''runQuery'', Some (queryToQueryProto entity q)) #
             map (\<lambda>x. (''runQuery'',
                    Some (queryToQueryProto entity (offset 0 (start (page_cursor x) q)))))
               (butlast ps))) \<and>
     ((L < 0 \<or> avail < L) \<and> answers w = map Inr ps @ Inr t # rest \<and> ends_stream entity t \<longrightarrow>
        (\<exists>st1 w1. reading entity this q st0 w = (st1, w1) \<and>
           stream st1 =
             Some \<lparr>pushed = concat (map (page_entities entity) ps), errors = [], ended = True\<rparr> \<and>
           (0 \<le> L \<longrightarrow> int (length (concat (map (page_entities entity) ps))) = min L avail) \<and>
           answers w1 = rest \<and>
           length (dispatched w1) = length (dispatched w) + length ps + 1 \<and>
           map (\<lambda>x. (action x, query (body x))) (dispatched w1) =
             map (\<lambda>x. (action x, query (body x))) (dispatched w) @
             (''runQuery'', Some (queryToQueryProto entity q)) #
             map (\<lambda>x. (''runQuery'',
                    Some (queryToQueryProto entity (offset 0 (start (page_cursor x) q)))))
               ps))"
proof -
  let ?s0 = "\<lparr>pushed = [], errors = [], ended = False\<rparr> :: 'a stream"
  have lazy: "snd (snd (runQuery entity this q Undefined w)) = w"
    and s0: "stream st0 = Some ?s0" and l0: "resultsToSend st0 = L"
    by (simp_all add: assms(1,2) runQuery_def is_function_def Let_def)
  have q0: "query (req st0) = Some (queryToQueryProto entity q)"
    by (simp add: assms(1) runQuery_def is_function_def Let_def split: option.splits)
  have queries: "map (\<lambda>x. (action x, query (body x))) (dispatched w1) =
             map (\<lambda>x. (action x, query (body x))) (dispatched w) @
             (''runQuery'', Some (queryToQueryProto entity q)) #
             map (\<lambda>x. (''runQuery'',
                    Some (queryToQueryProto entity (offset 0 (start (page_cursor x) q))))) qs"
    if "map (\<lambda>x. (action x, body x)) (dispatched w1) =
          map (\<lambda>x. (action x, body x)) (dispatched w) @
          (''runQuery'', req st0) #
          map (\<lambda>x. (''runQuery'',
                 (req st0)\<lparr>query := Some (queryToQueryProto entity (offset 0 (start (page_cursor x) q)))\<rparr>)) qs"
    for w1 :: "('b, 'b run_query_response) world" and qs
  proof -
    have "map (\<lambda>x. (action x, query (body x))) xs =
        map (\<lambda>p. (fst p, query (snd p))) (map (\<lambda>x. (action x, body x)) xs)"
      for xs :: "'b request list"
      by simp
    then show ?thesis
      by (simp only: that) (simp add: q0 comp_def)
  qed
  have A: "\<exists>st1 w1. reading entity this q st0 w = (st1, w1) \<and>
           stream st1 =
             Some \<lparr>pushed = take (nat L) (concat (map (page_entities entity) ps)), errors = [],
                   ended = True\<rparr> \<and>
           int (length (take (nat L) (concat (map (page_entities entity) ps)))) = min L avail \<and>
           answers w1 = rest \<and>
           length (dispatched w1) = length (dispatched w) + length ps \<and>
           map (\<lambda>x. (action x, query (body x))) (dispatched w1) =
             map (\<lambda>x. (action x, query (body x))) (dispatched w) @
             (''runQuery'', Some (queryToQueryProto entity q)) #
             map (\<lambda>x. (''runQuery'',
                    Some (queryToQueryProto entity (offset 0 (start (page_cursor x) q)))))
               (butlast ps)"
    if h: "0 \<le> L \<and> ps \<noteq> [] \<and> answers w = map Inr ps @ rest \<and> L \<le> avail \<and>
      (butlast ps = [] \<or> int (length (concat (map (page_entities entity) (butlast ps)))) < L)"
  proof -
    from h have ps: "butlast ps @ [last ps] = ps" by simp
    have "\<exists>st1 w1. runQuery_inner entity this q Undefined st0 w = (Pending, st1, w1) \<and>
           stream st1 =
             Some (?s0\<lparr>pushed := pushed ?s0 @
                      take (nat L) (concat (map (page_entities entity) (butlast ps @ [last ps]))),
                    ended := True\<rparr>) \<and>
           answers w1 = rest \<and>
           length (dispatched w1) = length (dispatched w) + length (butlast ps) + 1 \<and>
           map (\<lambda>x. (action x, body x)) (dispatched w1) =
             map (\<lambda>x. (action x, body x)) (dispatched w) @
             (''runQuery'', req st0) #
             map (\<lambda>x. (''runQuery'',
                    (req st0)\<lparr>query := Some (queryToQueryProto entity (offset 0 (start (page_cursor x) q)))\<rparr>)) (butlast ps)"
      by (rule stream_limit_reached [OF s0 l0])
        (use h assms(3,4) in \<open>simp_all only: ps simp_thms\<close>)
    then obtain st1 w1 where "runQuery_inner entity this q Undefined st0 w = (Pending, st1, w1)"
      and "stream st1 =
             Some \<lparr>pushed = take (nat L) (concat (map (page_entities entity) ps)), errors = [],
                   ended = True\<rparr>"
      and "answers w1 = rest"
      and "length (dispatched w1) = length (dispatched w) + length (butlast ps) + 1"
      and lg: "map (\<lambda>x. (action x, body x)) (dispatched w1) =
             map (\<lambda>x. (action x, body x)) (dispatched w) @
             (''runQuery'', req st0) #
             map (\<lambda>x. (''runQuery'',
                    (req st0)\<lparr>query := Some (queryToQueryProto entity (offset 0 (start (page_cursor x) q)))\<rparr>)) (butlast ps)"
      by (auto simp: ps)
    moreover from h have "length (butlast ps) + 1 = length ps" by simp
    moreover have "int (length (take (nat L) (concat (map (page_entities entity) ps)))) =
        min L avail"
    proof -
      from h have "nat L \<le> length (concat (map (page_entities entity) ps))"
        by (simp add: assms(4) nat_le_iff)
      then have "length (take (nat L) (concat (map (page_entities entity) ps))) = nat L"
        by simp
      with h show ?thesis by (simp add: min_def)
    qed
    moreover note queries [OF lg]
    ultimately show ?thesis
      by (simp add: reading_def)
  qed
  have B: "\<exists>st1 w1. reading entity this q st0 w = (st1, w1) \<and>
           stream st1 =
             Some \<lparr>pushed = concat (map (page_entities entity) ps), errors = [], ended = True\<rparr> \<and>
           (0 \<le> L \<longrightarrow> int (length (concat (map (page_entities entity) ps))) = min L avail) \<and>
           answers w1 = rest \<and>
           length (dispatched w1) = length (dispatched w) + length ps + 1 \<and>
           map (\<lambda>x. (action x, query (body x))) (dispatched w1) =
             map (\<lambda>x. (action x, query (body x))) (dispatched w) @
             (''runQuery'', Some (queryToQueryProto entity q)) #
             map (\<lambda>x. (''runQuery'',
                    Some (queryToQueryProto entity (offset 0 (start (page_cursor x) q)))))
               ps"
    if h: "(L < 0 \<or> avail < L) \<and> answers w = map Inr ps @ Inr t # rest \<and> ends_stream entity t"
  proof -
    have "\<exists>st1 w1. runQuery_inner entity this q Undefined st0 w = (Pending, st1, w1) \<and>
           stream st1 =
             Some (?s0\<lparr>pushed := pushed ?s0 @ concat (map (page_entities entity) ps),
                    ended := True\<rparr>) \<and>
           answers w1 = rest \<and>
           length (dispatched w1) = length (dispatched w) + length ps + 1 \<and>
           map (\<lambda>x. (action x, body x)) (dispatched w1) =
             map (\<lambda>x. (action x, body x)) (dispatched w) @
             (''runQuery'', req st0) #
             map (\<lambda>x. (''runQuery'',
                    (req st0)\<lparr>query := Some (queryToQueryProto entity (offset 0 (start (page_cursor x) q)))\<rparr>)) ps"
      by (rule stream_supply_exhausted [OF s0 l0, where t = t])
        (use h assms(3,4) in auto)
    then obtain st1 w1 where "runQuery_inner entity this q Undefined st0 w = (Pending, st1, w1)"
      and "stream st1 =
             Some \<lparr>pushed = concat (map (page_entities entity) ps), errors = [], ended = True\<rparr>"
      and "answers w1 = rest"
      and "length (dispatched w1) = length (dispatched w) + length ps + 1"
      and lg: "map (\<lambda>x. (action x, body x)) (dispatched w1) =
             map (\<lambda>x. (action x, body x)) (dispatched w) @
             (''runQuery'', req st0) #
             map (\<lambda>x. (''runQuery'',
                    (req st0)\<lparr>query := Some (queryToQueryProto entity (offset 0 (start (page_cursor x) q)))\<rparr>)) ps"
      by auto
    moreover from h have "0 \<le> L \<longrightarrow> int (length (concat (map (page_entities entity) ps))) = min L avail"
      by (auto simp: assms(4))
    moreover note queries [OF lg]
    ultimately show ?thesis
      by (simp add: reading_def)
  qed
  from lazy A B show ?thesis by blast
qed

theorem runQuery_stream_limit_witness:
  "stream (fst (reading codec dataset (limited 3)
       (fst (snd (runQuery codec dataset (limited 3) Undefined
          (answering [Inr (page [''a'', ''b''] ''c1''), Inr (page [''c'', ''d'', ''e''] ''c2''),
                      Inr (page [''f''] ''c3'')]))))
       (answering [Inr (page [''a'', ''b''] ''c1''), Inr (page [''c'', ''d'', ''e''] ''c2''),
                   Inr (page [''f''] ''c3'')]))) =
     Some \<lparr>pushed = [''a'', ''b'', ''c''], errors = [], ended = True\<rparr> \<and>
   answers (snd (reading codec dataset (limited 3)
       (fst (snd (runQuery codec dataset (limited 3) Undefined
          (answering [Inr (page [''a'', ''b''] ''c1''), Inr (page [''c'', ''d'', ''e''] ''c2''),
                      Inr (page [''f''] ''c3'')]))))
       (answering [Inr (page [''a'', ''b''] ''c1''), Inr (page [''c'', ''d'', ''e''] ''c2''),
                   Inr (page [''f''] ''c3'')]))) = [Inr (page [''f''] ''c3'')] \<and>
   length (dispatched (snd (reading codec dataset (limited 3)
       (fst (snd (runQuery codec dataset (limited 3) Undefined
          (answering [Inr (page [''a'', ''b''] ''c1''), Inr (page [''c'', ''d'', ''e''] ''c2''),
                      Inr (page [''f''] ''c3'')]))))
       (answering [Inr (page [''a'', ''b''] ''c1''), Inr (page [''c'', ''d'', ''e''] ''c2''),
                   Inr (page [''f''] ''c3'')])))) = 2 \<and>
   map (\<lambda>x. (action x, query (body x))) (dispatched (snd (reading codec dataset (limited 3)
       (fst (snd (runQuery codec dataset (limited 3) Undefined
          (answering [Inr (page [''a'', ''b''] ''c1''), Inr (page [''c'', ''d'', ''e''] ''c2''),
                      Inr (page [''f''] ''c3'')]))))
       (answering [Inr (page [''a'', ''b''] ''c1''), Inr (page [''c'', ''d'', ''e''] ''c2''),
                   Inr (page [''f''] ''c3'')])))) =
     [(''runQuery'', Some (QueryMsg (limited 3))),
      (''runQuery'', Some (QueryMsg (offset 0 (start ''c1'' (limited 3)))))] \<and>
   stream (fst (reading codec dataset (limited 5)
       (fst (snd (runQuery codec dataset (limited 5) Undefined
          (answering [Inr (page [''a'', ''b''] ''c1''), Inr (page [] [])]))))
       (answering [Inr (page [''a'', ''b''] ''c1''), Inr (page [] [])]))) =
     Some \<lparr>pushed = [''a'', ''b''], errors = [], ended = True\<rparr> \<and>
   length (dispatched (snd (reading codec dataset (limited 5)
       (fst (snd (runQuery codec dataset (limited 5) Undefined
          (answering [Inr (page [''a'', ''b''] ''c1''), Inr (page [] [])]))))
       (answering [Inr (page [''a'', ''b''] ''c1''), Inr (page [] [])])))) = 2"
proof -
  let ?p1 = "page [''a'', ''b''] ''c1''"
  let ?p2 = "page [''c'', ''d'', ''e''] ''c2''"
  let ?p3 = "page [''f''] ''c3''"
  let ?t = "page [] []"
  let ?w = "answering [Inr ?p1, Inr ?p2, Inr ?p3] :: (wire, wire run_query_response) world"
  let ?v = "answering [Inr ?p1, Inr ?t] :: (wire, wire run_query_response) world"
  have pe: "page_entities codec (page es c) = es" for es c
    by (simp add: page_entities_def page_def codec_def comp_def)
  have pc: "page_cursor (page es c) = c" for es c
    by (simp add: page_cursor_def page_def)
  have qp: "queryToQueryProto codec = QueryMsg"
    by (simp add: codec_def)
  have l3: "3 = limitVal (limited 3)" and l5: "5 = limitVal (limited 5)"
    by (simp_all add: limited_def)
  have g2: "\<forall>x \<in> set [?p1, ?p2]. \<not> ends_stream codec x"
    and g1: "\<forall>x \<in> set [?p1]. \<not> ends_stream codec x"
    and e: "ends_stream codec ?t"
    by (simp_all add: ends_stream_def pe pc)
  note A = runQuery_stream_limit [OF refl l3 g2 refl, where this = dataset and w = ?w
      and rest = "[Inr ?p3]"]
  note B = runQuery_stream_limit [OF refl l5 g1 refl, where this = dataset and w = ?v
      and t = ?t and rest = "[]"]
  have "(0::int) \<le> 3 \<and> [?p1, ?p2] \<noteq> [] \<and> answers ?w = map Inr [?p1, ?p2] @ [Inr ?p3] \<and>
      3 \<le> int (length (concat (map (page_entities codec) [?p1, ?p2]))) \<and>
      (butlast [?p1, ?p2] = [] \<or>
       int (length (concat (map (page_entities codec) (butlast [?p1, ?p2])))) < 3)"
    by (simp add: answering_def pe)
  with A obtain st1 w1 where
    "reading codec dataset (limited 3)
       (fst (snd (runQuery codec dataset (limited 3) Undefined ?w))) ?w = (st1, w1)"
    and "stream st1 =
      Some \<lparr>pushed = take (nat 3) (concat (map (page_entities codec) [?p1, ?p2])), errors = [],
            ended = True\<rparr>"
    and "answers w1 = [Inr ?p3]"
    and "length (dispatched w1) = length (dispatched ?w) + length [?p1, ?p2]"
    and "map (\<lambda>x. (action x, query (body x))) (dispatched w1) =
      map (\<lambda>x. (action x, query (body x))) (dispatched ?w) @
      (''runQuery'', Some (queryToQueryProto codec (limited 3))) #
      map (\<lambda>x. (''runQuery'',
             Some (queryToQueryProto codec (offset 0 (start (page_cursor x) (limited 3))))))
        (butlast [?p1, ?p2])"
    by blast
  then have 1: "stream (fst (reading codec dataset (limited 3)
       (fst (snd (runQuery codec dataset (limited 3) Undefined ?w))) ?w)) =
     Some \<lparr>pushed = [''a'', ''b'', ''c''], errors = [], ended = True\<rparr>"
    and 2: "answers (snd (reading codec dataset (limited 3)
       (fst (snd (runQuery codec dataset (limited 3) Undefined ?w))) ?w)) = [Inr ?p3]"
    and 3: "length (dispatched (snd (reading codec dataset (limited 3)
       (fst (snd (runQuery codec dataset (limited 3) Undefined ?w))) ?w))) = 2"
    and 6: "map (\<lambda>x. (action x, query (body x))) (dispatched (snd (reading codec dataset
       (limited 3) (fst (snd (runQuery codec dataset (limited 3) Undefined ?w))) ?w))) =
     [(''runQuery'', Some (QueryMsg (limited 3))),
      (''runQuery'', Some (QueryMsg (offset 0 (start ''c1'' (limited 3)))))]"
    by (simp_all add: pe pc qp answering_def numeral_3_eq_3)
  have "((5::int) < 0 \<or> int (length (concat (map (page_entities codec) [?p1]))) < 5) \<and>
      answers ?v = map Inr [?p1] @ Inr ?t # [] \<and> ends_stream codec ?t"
    by (simp add: answering_def pe e)
  with B obtain st2 w2 where
    "reading codec dataset (limited 5)
       (fst (snd (runQuery codec dataset (limited 5) Undefined ?v))) ?v = (st2, w2)"
    and "stream st2 =
      Some \<lparr>pushed = concat (map (page_entities codec) [?p1]), errors = [], ended = True\<rparr>"
    and "length (dispatched w2) = length (dispatched ?v) + length [?p1] + 1"
    by blast
  then have 4: "stream (fst (reading codec dataset (limited 5)
       (fst (snd (runQuery codec dataset (limited 5) Undefined ?v))) ?v)) =
     Some \<lparr>pushed = [''a'', ''b''], errors = [], ended = True\<rparr>"
    and 5: "length (dispatched (snd (reading codec dataset (limited 5)
       (fst (snd (runQuery codec dataset (limited 5) Undefined ?v))) ?v))) = 2"
    by (simp_all add: pe answering_def)
  from 1 2 3 6 4 5 show ?thesis by (intro conjI)
qed

end
